theory Spec2Isabelle
  imports Complex_Main "HOL-Library.Log_Nat"
begin

section \<open>The FaceNet model download script\<close>

text \<open>
  The repository is one Python script, \<^verbatim>\<open>download_facenet.py\<close>. It creates the
  directory \<^verbatim>\<open>assets/models\<close>, downloads one file into it with
  \<^verbatim>\<open>urllib.request.urlretrieve\<close>, reporting progress through a callback, and prints
  either a success summary or an error block.

  The script is modelled in three layers:
  \<^item> Python's numbers: unbounded integers are \<^typ>\<open>int\<close>; a \<^verbatim>\<open>float\<close> is an IEEE-754
    binary64 value, modelled by a sign and an exact rational magnitude, with the rounding
    (to nearest, ties to even) written out;
  \<^item> the world the script acts on: a file system of directories and files, the standard
    output, and the answer of the network;
  \<^item> the script itself, statement by statement, with every raised exception a value.
\<close>

subsection \<open>Exceptions\<close>

text \<open>
  An exception has a class and the text that \<^verbatim>\<open>str(e)\<close> gives. \<^verbatim>\<open>KeyboardInterrupt\<close>
  derives from \<^verbatim>\<open>BaseException\<close> only: \<^verbatim>\<open>except Exception\<close> does not catch it.
\<close>

datatype exc_class =
    ZeroDivisionError | OverflowError
  | FileExistsError | FileNotFoundError | NotADirectoryError | IsADirectoryError
  | URLError | ContentTooShortError | OtherException
  | KeyboardInterrupt

datatype py_exception = PyExc (exc_cls: exc_class) (exc_str: string)

fun is_Exception :: "exc_class \<Rightarrow> bool" where
  "is_Exception KeyboardInterrupt = False"
| "is_Exception _ = True"

subsection \<open>Python floats\<close>

text \<open>
  A float is finite, with a sign bit (\<open>True\<close> is negative, so that \<^verbatim>\<open>-0.0\<close> is
  \<open>Finite True 0\<close>) and a magnitude, or an infinity. No operation of the script produces
  a NaN.
\<close>

datatype pyfloat = Finite bool rat | Infinity bool

text \<open>Rounding a rational to the nearest integer, a tie going to the even neighbour.\<close>

definition round_half_even :: "rat \<Rightarrow> int" where
  "round_half_even x =
     (let f = \<lfloor>x\<rfloor>; r = x - of_int f
      in if r < 1 / 2 then f
         else if 1 / 2 < r then f + 1
         else if even f then f else f + 1)"

text \<open>The binary exponent of a positive rational: the \<open>e\<close> with \<open>2\<^sup>e \<le> q < 2\<^sup>e\<^sup>+\<^sup>1\<close>.\<close>

definition ilog2 :: "rat \<Rightarrow> int" where
  "ilog2 q = (if 1 \<le> q then bitlen \<lfloor>q\<rfloor> - 1 else - bitlen (\<lceil>1 / q\<rceil> - 1))"

text \<open>
  The binary64 value nearest to a magnitude \<open>q \<ge> 0\<close>, the exponent range unbounded above:
  53 significant bits, and below \<open>2\<^sup>-\<^sup>1\<^sup>0\<^sup>2\<^sup>2\<close> the fixed spacing \<open>2\<^sup>-\<^sup>1\<^sup>0\<^sup>7\<^sup>4\<close> of the
  subnormal numbers. A result of \<open>2\<^sup>1\<^sup>0\<^sup>2\<^sup>4\<close> or more does not fit a float: the callers turn
  it into an \<^verbatim>\<open>OverflowError\<close> or an infinity.
\<close>

definition round_double :: "rat \<Rightarrow> rat" where
  "round_double q =
     (let e = max (ilog2 q) (- 1022); u = 2 powi (e - 52)
      in of_int (round_half_even (q / u)) * u)"

definition double_limit :: rat where
  "double_limit = 2 ^ 1024"

text \<open>
  \<^verbatim>\<open>a / b\<close> on two integers: true division, correctly rounded. A zero divisor raises
  \<^verbatim>\<open>ZeroDivisionError\<close>, a quotient too large for a float raises \<^verbatim>\<open>OverflowError\<close>.
\<close>

definition int_truediv :: "int \<Rightarrow> int \<Rightarrow> py_exception + pyfloat" where
  "int_truediv a b =
     (if b = 0 then Inl (PyExc ZeroDivisionError ''division by zero'')
      else let m = round_double (of_int \<bar>a\<bar> / of_int \<bar>b\<bar>)
           in if double_limit \<le> m
              then Inl (PyExc OverflowError ''integer division result too large for a float'')
              else Inr (Finite ((a < 0) \<noteq> (b < 0)) m))"

text \<open>
  \<^verbatim>\<open>x * k\<close> for a float \<open>x\<close> and an integer constant \<open>0 < k < 2\<^sup>5\<^sup>3\<close> (which converts to
  a float exactly): the product is rounded, and overflows to an infinity without raising.
\<close>

fun float_mul_const :: "pyfloat \<Rightarrow> nat \<Rightarrow> pyfloat" where
  "float_mul_const (Finite s m) k =
     (let m' = round_double (m * of_nat k)
      in if double_limit \<le> m' then Infinity s else Finite s m')"
| "float_mul_const (Infinity s) k = Infinity s"

text \<open>The order of floats as numbers: the two zeros are equal.\<close>

fun float_le :: "pyfloat \<Rightarrow> pyfloat \<Rightarrow> bool" where
  "float_le (Finite s m) (Finite s' m') =
     ((if s then - m else m) \<le> (if s' then - m' else m'))"
| "float_le (Finite s m) (Infinity s') = (\<not> s')"
| "float_le (Infinity s) (Finite s' m') = s"
| "float_le (Infinity s) (Infinity s') = (s \<or> \<not> s')"

definition float_lt :: "pyfloat \<Rightarrow> pyfloat \<Rightarrow> bool" where
  "float_lt x y = (float_le x y \<and> \<not> float_le y x)"

subsection \<open>Formatting\<close>

definition digit_char :: "nat \<Rightarrow> char" where
  "digit_char d = ''0123456789'' ! d"

fun digits10 :: "nat \<Rightarrow> string" where
  "digits10 n = (if n < 10 then [digit_char n] else digits10 (n div 10) @ [digit_char (n mod 10)])"

text \<open>\<^verbatim>\<open>"%i" % n\<close> and \<^verbatim>\<open>str(n)\<close> for an integer.\<close>

definition str_int :: "int \<Rightarrow> string" where
  "str_int i = (if i < 0 then ''-'' @ digits10 (nat (- i)) else digits10 (nat i))"

text \<open>
  \<^verbatim>\<open>f"{x:.pf}"\<close>: fixed-point notation with \<open>p\<close> digits after the point, the exact value
  of the float rounded half-even at that digit; the sign is the sign bit's.
\<close>

fun format_fixed :: "nat \<Rightarrow> pyfloat \<Rightarrow> string" where
  "format_fixed p (Infinity s) = (if s then ''-inf'' else ''inf'')"
| "format_fixed p (Finite s m) =
     (let n = nat (round_half_even (m * 10 ^ p));
          frac = digits10 (n mod 10 ^ p)
      in (if s then ''-'' else '''') @ digits10 (n div 10 ^ p)
         @ (if p = 0 then '''' else ''.'' @ replicate (p - length frac) CHR ''0'' @ frac))"

subsection \<open>The progress callback\<close>

text \<open>
  Lines 21 to 24 of the script: the three numbers the callback computes. The \<^verbatim>\<open>else\<close>
  branch of line 22 gives the integer \<^verbatim>\<open>0\<close>, which \<^verbatim>\<open>.1f\<close> formats as the float
  \<^verbatim>\<open>0.0\<close>; it is that float here.
\<close>

definition percent_of :: "int \<Rightarrow> int \<Rightarrow> int \<Rightarrow> py_exception + pyfloat" where
  "percent_of block_num block_size total_size =
     (let downloaded = block_num * block_size
      in if total_size > 0
         then (case int_truediv downloaded total_size of
                 Inl e \<Rightarrow> Inl e
               | Inr q \<Rightarrow> Inr (float_mul_const q 100))
         else Inr (Finite False 0))"

definition progress_values ::
    "int \<Rightarrow> int \<Rightarrow> int \<Rightarrow> py_exception + (pyfloat \<times> pyfloat \<times> pyfloat)" where
  "progress_values block_num block_size total_size =
     (let downloaded = block_num * block_size
      in case percent_of block_num block_size total_size of
           Inl e \<Rightarrow> Inl e
         | Inr percent \<Rightarrow>
            (case int_truediv downloaded (1024 * 1024) of
               Inl e \<Rightarrow> Inl e
             | Inr mb_downloaded \<Rightarrow>
                (case int_truediv total_size (1024 * 1024) of
                   Inl e \<Rightarrow> Inl e
                 | Inr mb_total \<Rightarrow> Inr (percent, mb_downloaded, mb_total))))"

text \<open>Line 25: the text the callback prints (with \<^verbatim>\<open>end=''\<close>, so no newline follows).\<close>

definition progress_line :: "pyfloat \<times> pyfloat \<times> pyfloat \<Rightarrow> string" where
  "progress_line v =
     (case v of (percent, mb_downloaded, mb_total) \<Rightarrow>
        [CHR 0x0D] @ ''Progress: '' @ format_fixed 1 percent @ ''% ('' @
        format_fixed 1 mb_downloaded @ ''/'' @ format_fixed 1 mb_total @ '' MB)'')"

subsection \<open>The file system\<close>

text \<open>
  A file system maps a path, as the script writes it (relative to the working directory,
  with \<^verbatim>\<open>/\<close> as separator and no redundant separators), to a directory or to a regular
  file with its bytes. The working directory itself is the empty path and always exists.
\<close>

datatype node = Dir | File string

type_synonym filesystem = "string \<rightharpoonup> node"

definition path_exists :: "filesystem \<Rightarrow> string \<Rightarrow> bool" where
  "path_exists fs p = (fs p \<noteq> None)"

definition path_isdir :: "filesystem \<Rightarrow> string \<Rightarrow> bool" where
  "path_isdir fs p = (fs p = Some Dir)"

text \<open>\<^verbatim>\<open>os.path.split\<close>: the part before the last separator, and the part after it.\<close>

definition path_split :: "string \<Rightarrow> string \<times> string" where
  "path_split p =
     (let tail = rev (takeWhile (\<lambda>c. c \<noteq> CHR ''/'') (rev p));
          head = rev (dropWhile (\<lambda>c. c \<noteq> CHR ''/'') (rev p))
      in (if head \<noteq> [] \<and> head \<noteq> replicate (length head) CHR ''/''
          then rev (dropWhile (\<lambda>c. c = CHR ''/'') (rev head)) else head, tail))"

text \<open>\<^verbatim>\<open>os.path.join\<close> of two parts.\<close>

definition path_join :: "string \<Rightarrow> string \<Rightarrow> string" where
  "path_join a b =
     (if b \<noteq> [] \<and> hd b = CHR ''/'' then b
      else if a = [] \<or> last a = CHR ''/'' then a @ b
      else a @ ''/'' @ b)"

text \<open>The text of an \<^verbatim>\<open>OSError\<close> that names a path: \<^verbatim>\<open>[Errno 17] File exists: 'p'\<close>.\<close>

definition os_error :: "exc_class \<Rightarrow> string \<Rightarrow> string \<Rightarrow> py_exception" where
  "os_error c text p = PyExc c (text @ '': '' @ [CHR 0x27] @ p @ [CHR 0x27])"

text \<open>
  The directory a new entry \<open>p\<close> goes into must exist and be a directory; this is what the
  system checks first, in \<^verbatim>\<open>mkdir\<close> as in \<^verbatim>\<open>open\<close>.
\<close>

definition parent_error :: "filesystem \<Rightarrow> string \<Rightarrow> py_exception option" where
  "parent_error fs p =
     (let parent = fst (path_split p)
      in if parent = [] then None
         else case fs parent of
                None \<Rightarrow> Some (os_error FileNotFoundError ''[Errno 2] No such file or directory'' p)
              | Some (File _) \<Rightarrow> Some (os_error NotADirectoryError ''[Errno 20] Not a directory'' p)
              | Some Dir \<Rightarrow> None)"

definition mkdir :: "string \<Rightarrow> filesystem \<Rightarrow> py_exception + filesystem" where
  "mkdir p fs =
     (case parent_error fs p of
        Some e \<Rightarrow> Inl e
      | None \<Rightarrow>
          if path_exists fs p then Inl (os_error FileExistsError ''[Errno 17] File exists'' p)
          else Inr (fs(p \<mapsto> Dir)))"

text \<open>
  The end of \<^verbatim>\<open>os.makedirs\<close>: \<^verbatim>\<open>mkdir\<close> in a \<^verbatim>\<open>try\<close>, whose \<^verbatim>\<open>except OSError\<close>
  raises again unless \<^verbatim>\<open>exist_ok\<close> is set and the path is a directory.
\<close>

definition mkdir_exist_ok :: "string \<Rightarrow> bool \<Rightarrow> filesystem \<Rightarrow> (py_exception + unit) \<times> filesystem" where
  "mkdir_exist_ok name exist_ok fs =
     (case mkdir name fs of
        Inr fs' \<Rightarrow> (Inr (), fs')
      | Inl e \<Rightarrow> if \<not> exist_ok \<or> \<not> path_isdir fs name then (Inl e, fs) else (Inr (), fs))"

text \<open>
  \<^verbatim>\<open>os.makedirs(name, exist_ok=exist_ok)\<close> of the standard library: it first creates the
  missing parent directories, by a recursive call on the head of the path, and then the
  directory itself. The file system is returned also when an exception is raised.
\<close>

function makedirs :: "string \<Rightarrow> bool \<Rightarrow> filesystem \<Rightarrow> (py_exception + unit) \<times> filesystem" where
  "makedirs name exist_ok fs =
     (let ht0 = path_split name;
          ht = (if snd ht0 = [] then path_split (fst ht0) else ht0);
          head = fst ht; tail = snd ht
      in if head \<noteq> [] \<and> tail \<noteq> [] \<and> \<not> path_exists fs head
         then (case makedirs head exist_ok fs of
                 (Inl e, fs1) \<Rightarrow>
                   if exc_cls e = FileExistsError
                   then (if tail = ''.'' then (Inr (), fs1) else mkdir_exist_ok name exist_ok fs1)
                   else (Inl e, fs1)
               | (Inr u, fs1) \<Rightarrow>
                   if tail = ''.'' then (Inr (), fs1) else mkdir_exist_ok name exist_ok fs1)
         else mkdir_exist_ok name exist_ok fs)"
  by pat_completeness auto
termination
proof (relation "measure (\<lambda>(name, exist_ok, fs). length name)")
  show "wf (measure (\<lambda>(name, exist_ok, fs). length name))" by simp
next
  fix name :: string and exist_ok :: bool and fs :: filesystem and ht0 ht head tail
  assume ht0: "ht0 = path_split name"
    and ht: "ht = (if snd ht0 = [] then path_split (fst ht0) else ht0)"
    and head: "head = fst ht" and tail: "tail = snd ht"
    and cond: "head \<noteq> [] \<and> tail \<noteq> [] \<and> \<not> path_exists fs head"
  have le: "length (fst (path_split p)) + length (snd (path_split p)) \<le> length p" for p
  proof -
    have "length (takeWhile (\<lambda>c. c \<noteq> CHR ''/'') (rev p))
        + length (dropWhile (\<lambda>c. c \<noteq> CHR ''/'') (rev p)) = length p"
      by (metis length_append length_rev takeWhile_dropWhile_id)
    moreover have "length (dropWhile (\<lambda>c. c = CHR ''/'') (rev (rev (dropWhile (\<lambda>c. c \<noteq> CHR ''/'') (rev p)))))
        \<le> length (dropWhile (\<lambda>c. c \<noteq> CHR ''/'') (rev p))"
      by (simp add: length_dropWhile_le)
    ultimately show ?thesis
      by (simp add: path_split_def Let_def)
  qed
  have "length head < length name"
  proof (cases "snd ht0 = []")
    case True
    then have "ht = path_split (fst ht0)" using ht by simp
    with cond head tail le [of "fst ht0"] have "length head < length (fst ht0)"
      by (cases "snd (path_split (fst ht0))") simp_all
    moreover have "length (fst ht0) \<le> length name" using le [of name] ht0 by simp
    ultimately show ?thesis by simp
  next
    case False
    then have "ht = path_split name" using ht ht0 by simp
    with cond head tail le [of name] show ?thesis
      by (cases "snd (path_split name)") simp_all
  qed
  then show "((head, exist_ok, fs), (name, exist_ok, fs)) \<in> measure (\<lambda>(name, exist_ok, fs). length name)"
    by simp
qed

text \<open>
  \<^verbatim>\<open>open(filename, 'wb')\<close>: the file is created, or emptied when it exists; a directory at
  that path cannot be opened for writing.
\<close>

definition open_wb :: "string \<Rightarrow> filesystem \<Rightarrow> py_exception + filesystem" where
  "open_wb p fs =
     (case parent_error fs p of
        Some e \<Rightarrow> Inl e
      | None \<Rightarrow>
          if path_isdir fs p then Inl (os_error IsADirectoryError ''[Errno 21] Is a directory'' p)
          else Inr (fs(p \<mapsto> File [])))"

text \<open>\<^verbatim>\<open>tfp.write(block)\<close> on the file opened at \<open>p\<close>.\<close>

definition write_block :: "string \<Rightarrow> string \<Rightarrow> filesystem \<Rightarrow> filesystem" where
  "write_block p block fs =
     (case fs p of Some (File content) \<Rightarrow> fs(p \<mapsto> File (content @ block)) | _ \<Rightarrow> fs)"

text \<open>
  \<^verbatim>\<open>os.path.getsize\<close>: the number of bytes of a file. For a directory the system reports a
  size of its own choosing, left at 0 here; the script asks for the size of the file it has
  just written.
\<close>

definition path_getsize :: "filesystem \<Rightarrow> string \<Rightarrow> py_exception + nat" where
  "path_getsize fs p =
     (case fs p of
        None \<Rightarrow> Inl (os_error FileNotFoundError ''[Errno 2] No such file or directory'' p)
      | Some Dir \<Rightarrow> Inr 0
      | Some (File content) \<Rightarrow> Inr (length content))"

subsection \<open>The world of the script\<close>

text \<open>
  What a run does to the outside is recorded in order: the call of \<^verbatim>\<open>os.makedirs\<close>, the
  call of \<^verbatim>\<open>urlretrieve\<close>, and every \<^verbatim>\<open>print\<close> with the bytes it writes (the text in
  UTF-8, followed by its \<^verbatim>\<open>end\<close>). The script reads nothing: there is no input event.
\<close>

datatype event = Makedirs string | Urlretrieve string string | Print string

record world =
  files :: filesystem
  trace :: "event list"

definition log_event :: "event \<Rightarrow> world \<Rightarrow> world" where
  "log_event ev w = w\<lparr>trace := trace w @ [ev]\<rparr>"

text \<open>\<^verbatim>\<open>print(s)\<close>, and \<^verbatim>\<open>print(s, end='')\<close>.\<close>

definition py_print :: "string \<Rightarrow> world \<Rightarrow> world" where
  "py_print s w = log_event (Print (s @ [CHR 0x0A])) w"

definition py_print_no_end :: "string \<Rightarrow> world \<Rightarrow> world" where
  "py_print_no_end s w = log_event (Print s) w"

fun printed :: "event \<Rightarrow> string list" where
  "printed (Print s) = [s]"
| "printed _ = []"

definition stdout :: "world \<Rightarrow> string list" where
  "stdout w = concat (map printed (trace w))"

fun is_fetch :: "event \<Rightarrow> bool" where
  "is_fetch (Urlretrieve url p) = True"
| "is_fetch _ = False"

fun is_print :: "event \<Rightarrow> bool" where
  "is_print (Print s) = True"
| "is_print _ = False"

text \<open>
  Lines 20 to 25: the callback. It prints its line, or raises what a division raises.
\<close>

definition download_progress :: "int \<Rightarrow> int \<Rightarrow> int \<Rightarrow> world \<Rightarrow> (py_exception + unit) \<times> world" where
  "download_progress block_num block_size total_size w =
     (case progress_values block_num block_size total_size of
        Inl e \<Rightarrow> (Inl e, w)
      | Inr v \<Rightarrow> (Inr (), py_print_no_end (progress_line v) w))"

subsection \<open>The network and \<^verbatim>\<open>urlretrieve\<close>\<close>

text \<open>
  The answer of the network to \<^verbatim>\<open>urlopen(url)\<close> is an exception, or a response: the
  \<^verbatim>\<open>Content-Length\<close> header when there is one (an integer), the blocks that the successive
  \<^verbatim>\<open>fp.read(bs)\<close> give, and the exception that ends the stream when the connection breaks.
\<close>

record response =
  content_length :: "int option"
  body_blocks :: "string list"
  read_failure :: "py_exception option"

type_synonym network = "string \<Rightarrow> py_exception + response"

type_synonym reporthook = "int \<Rightarrow> int \<Rightarrow> int \<Rightarrow> world \<Rightarrow> (py_exception + unit) \<times> world"

definition bs :: int where
  "bs = 1024 * 8"

text \<open>
  The loop \<^verbatim>\<open>while block := fp.read(bs)\<close> of \<^verbatim>\<open>urlretrieve\<close>: an empty block ends it,
  as the end of the stream does; every other block is counted, written and reported.
  The result is the number of bytes read.
\<close>

fun retrieve_blocks ::
    "reporthook \<Rightarrow> string \<Rightarrow> int \<Rightarrow> py_exception option \<Rightarrow> string list \<Rightarrow> nat \<Rightarrow> int \<Rightarrow> world
      \<Rightarrow> (py_exception + nat) \<times> world" where
  "retrieve_blocks hook filename size' failure [] read blocknum w =
     (case failure of Some e \<Rightarrow> (Inl e, w) | None \<Rightarrow> (Inr read, w))"
| "retrieve_blocks hook filename size' failure (block # rest) read blocknum w =
     (if block = [] then (Inr read, w)
      else let w1 = w\<lparr>files := write_block filename block (files w)\<rparr>
           in case hook (blocknum + 1) bs size' w1 of
                (Inl e, w2) \<Rightarrow> (Inl e, w2)
              | (Inr u, w2) \<Rightarrow>
                  retrieve_blocks hook filename size' failure rest
                    (read + length block) (blocknum + 1) w2)"

definition content_too_short :: "nat \<Rightarrow> int \<Rightarrow> py_exception" where
  "content_too_short read size' =
     PyExc ContentTooShortError
       (''<urlopen error retrieval incomplete: got only '' @ str_int (int read) @
        '' out of '' @ str_int size' @ '' bytes>'')"

text \<open>\<^verbatim>\<open>urllib.request.urlretrieve(url, filename, reporthook)\<close> of the standard library.\<close>

definition urlretrieve ::
    "network \<Rightarrow> string \<Rightarrow> string \<Rightarrow> reporthook \<Rightarrow> world \<Rightarrow> (py_exception + unit) \<times> world" where
  "urlretrieve net url filename hook w =
     (let w0 = log_event (Urlretrieve url filename) w
      in case net url of
           Inl e \<Rightarrow> (Inl e, w0)
         | Inr resp \<Rightarrow>
            (case open_wb filename (files w0) of
               Inl e \<Rightarrow> (Inl e, w0)
             | Inr fs1 \<Rightarrow>
                (let size' = (case content_length resp of None \<Rightarrow> - 1 | Some n \<Rightarrow> n)
                 in case hook 0 bs size' (w0\<lparr>files := fs1\<rparr>) of
                      (Inl e, w1) \<Rightarrow> (Inl e, w1)
                    | (Inr u, w1) \<Rightarrow>
                       (case retrieve_blocks hook filename size' (read_failure resp)
                               (body_blocks resp) 0 0 w1 of
                          (Inl e, w2) \<Rightarrow> (Inl e, w2)
                        | (Inr read, w2) \<Rightarrow>
                            if size' \<ge> 0 \<and> int read < size'
                            then (Inl (content_too_short read size'), w2)
                            else (Inr (), w2)))))"

subsection \<open>The script\<close>

definition models_dir :: string where
  "models_dir = ''assets/models''"

definition model_url :: string where
  "model_url = ''https://github.com/kby-ai/FaceRecognition-Flutter/raw/main/assets/facenet.tflite''"

definition model_path :: string where
  "model_path = path_join models_dir ''facenet.tflite''"

definition check_mark :: string where
  "check_mark = [CHR 0xE2, CHR 0x9C, CHR 0x93]"

definition cross_mark :: string where
  "cross_mark = [CHR 0xE2, CHR 0x9C, CHR 0x97]"

definition rule50 :: string where
  "rule50 = replicate 50 CHR ''=''"

text \<open>Lines 12 to 16.\<close>

definition print_banner :: "world \<Rightarrow> world" where
  "print_banner w =
     py_print (''Destination: '' @ model_path @ [CHR 0x0A])
       (py_print ([CHR 0x0A] @ ''Downloading from: '' @ model_url)
         (py_print rule50
           (py_print ''FaceNet Model Download Script''
             (py_print rule50 w))))"

text \<open>Lines 30 to 39.\<close>

definition print_success :: "pyfloat \<Rightarrow> world \<Rightarrow> world" where
  "print_success file_size w =
     py_print (''4. Test face recognition accuracy'' @ [CHR 0x0A])
       (py_print ''3. Re-register employees with new model''
         (py_print ''2. Delete all employees from the app''
           (py_print ''1. Run: flutter pub get''
             (py_print rule50
               (py_print ''Next Steps:''
                 (py_print ([CHR 0x0A] @ rule50)
                   (py_print (''  File size: '' @ format_fixed 2 file_size @ '' MB'')
                     (py_print ([CHR 0x0A, CHR 0x0A] @ check_mark @ '' Model downloaded successfully!'')
                        w))))))))"

text \<open>Lines 19 to 39: the body of the \<^verbatim>\<open>try\<close>.\<close>

definition download_and_report :: "network \<Rightarrow> world \<Rightarrow> (py_exception + unit) \<times> world" where
  "download_and_report net w =
     (case urlretrieve net model_url model_path download_progress w of
        (Inl e, w1) \<Rightarrow> (Inl e, w1)
      | (Inr u, w1) \<Rightarrow>
         (case path_getsize (files w1) model_path of
            Inl e \<Rightarrow> (Inl e, w1)
          | Inr n \<Rightarrow>
             (case int_truediv (int n) (1024 * 1024) of
                Inl e \<Rightarrow> (Inl e, w1)
              | Inr file_size \<Rightarrow> (Inr (), print_success file_size w1))))"

text \<open>Lines 42 to 45: the handler.\<close>

definition fallback_url :: string where
  "fallback_url = ''https://github.com/kby-ai/FaceRecognition-Flutter/tree/main/assets''"

definition error_lines :: "py_exception \<Rightarrow> string list" where
  "error_lines e =
     [[CHR 0x0A] @ cross_mark @ '' Error: '' @ exc_str e @ [CHR 0x0A],
      [CHR 0x0A] @ ''Alternative: Download manually from:'' @ [CHR 0x0A],
      fallback_url @ [CHR 0x0A],
      ''Save as: '' @ model_path @ [CHR 0x0A, CHR 0x0A]]"

definition print_error :: "py_exception \<Rightarrow> world \<Rightarrow> world" where
  "print_error e w =
     py_print (''Save as: '' @ model_path @ [CHR 0x0A])
       (py_print fallback_url
         (py_print ([CHR 0x0A] @ ''Alternative: Download manually from:'')
           (py_print ([CHR 0x0A] @ cross_mark @ '' Error: '' @ exc_str e) w)))"

text \<open>
  How a run ends: the \<^verbatim>\<open>try\<close> body completed, or the handler reported an exception, or
  an exception left the script, which then ends with a traceback and a nonzero status.
\<close>

datatype outcome = Succeeded | Reported py_exception | Unhandled py_exception


text \<open>Lines 8 to 45: the script after the directory is there.\<close>

definition fetch_model :: "network \<Rightarrow> world \<Rightarrow> outcome \<times> world" where
  "fetch_model net w =
     (case download_and_report net (print_banner w) of
        (Inr u, w1) \<Rightarrow> (Succeeded, w1)
      | (Inl e, w1) \<Rightarrow>
          if is_Exception (exc_cls e) then (Reported e, print_error e w1)
          else (Unhandled e, w1))"

text \<open>The whole script, run on a file system and a network.\<close>

definition run_script :: "network \<Rightarrow> filesystem \<Rightarrow> outcome \<times> world" where
  "run_script net fs =
     (let w = log_event (Makedirs models_dir) \<lparr>files = fs, trace = []\<rparr>
      in case makedirs models_dir True (files w) of
           (Inl e, fs1) \<Rightarrow> (Unhandled e, w\<lparr>files := fs1\<rparr>)
         | (Inr u, fs1) \<Rightarrow> fetch_model net (w\<lparr>files := fs1\<rparr>))"

subsection \<open>Auxiliary notions for the properties\<close>

text \<open>
  The magnitude of the percentage when the total size is known: the quotient of the
  magnitudes, rounded, times 100, rounded again.
\<close>

definition percent_magnitude :: "int \<Rightarrow> int \<Rightarrow> rat" where
  "percent_magnitude d t = round_double (round_double (of_int \<bar>d\<bar> / of_int \<bar>t\<bar>) * 100)"

text \<open>A world with an empty file system in which nothing has happened yet.\<close>

definition initial_world :: world where
  "initial_world = \<lparr>files = Map.empty, trace = []\<rparr>"

text \<open>What lines 12 to 16 print.\<close>

definition banner_lines :: "string list" where
  "banner_lines =
     [rule50 @ [CHR 0x0A],
      ''FaceNet Model Download Script'' @ [CHR 0x0A],
      rule50 @ [CHR 0x0A],
      [CHR 0x0A] @ ''Downloading from: '' @ model_url @ [CHR 0x0A],
      ''Destination: '' @ model_path @ [CHR 0x0A, CHR 0x0A]]"

text \<open>
  A file system is well formed when every entry lies in the working directory or in a
  directory that exists.
\<close>

definition well_formed :: "filesystem \<Rightarrow> bool" where
  "well_formed fs =
     (\<forall>p. path_exists fs p \<longrightarrow>
        fst (path_split p) = [] \<or> path_isdir fs (fst (path_split p)))"

subsection \<open>Sample environments\<close>


text \<open>A server that announces four bytes and sends them in one block.\<close>

definition small_server :: network where
  "small_server url =
     Inr \<lparr>content_length = Some 4, body_blocks = [''abcd''], read_failure = None\<rparr>"

text \<open>A file system where \<^verbatim>\<open>assets\<close> is a regular file, so that no directory fits below.\<close>

definition blocked_fs :: filesystem where
  "blocked_fs = Map.empty(''assets'' \<mapsto> File ''x'')"


text \<open>A file system that holds the directories and an earlier download.\<close>

definition stale_fs :: filesystem where
  "stale_fs = Map.empty(''assets'' \<mapsto> Dir, ''assets/models'' \<mapsto> Dir,
     ''assets/models/facenet.tflite'' \<mapsto> File ''old'')"

section \<open>Properties of the numbers\<close>

subsection \<open>Rounding\<close>

lemma round_half_even_ge_floor: "\<lfloor>x\<rfloor> \<le> round_half_even x"
  by (simp add: round_half_even_def Let_def)

lemma round_half_even_le_floor1: "round_half_even x \<le> \<lfloor>x\<rfloor> + 1"
  by (simp add: round_half_even_def Let_def)

lemma round_half_even_of_int: "round_half_even (of_int n) = n"
  by (simp add: round_half_even_def Let_def)

lemma round_half_even_mono:
  assumes "x \<le> y"
  shows "round_half_even x \<le> round_half_even y"
proof (cases "\<lfloor>x\<rfloor> = \<lfloor>y\<rfloor>")
  case True
  with assms show ?thesis
    by (auto simp: round_half_even_def Let_def)
next
  case False
  with assms have "\<lfloor>x\<rfloor> + 1 \<le> \<lfloor>y\<rfloor>"
    using floor_mono [of x y] by linarith
  with round_half_even_le_floor1 [of x] round_half_even_ge_floor [of y]
  show ?thesis by linarith
qed

lemma round_half_even_nonneg: "0 \<le> x \<Longrightarrow> 0 \<le> round_half_even x"
  using round_half_even_mono [of 0 x] round_half_even_of_int [of 0] by simp

lemma ilog2_bounds:
  assumes "0 < q"
  shows "2 powi ilog2 q \<le> q" and "q < 2 powi (ilog2 q + 1)"
proof -
  have "2 powi ilog2 q \<le> q \<and> q < 2 powi (ilog2 q + 1)"
  proof (cases "1 \<le> q")
    case True
    define n where "n = \<lfloor>q\<rfloor>"
    have n: "0 < n" using True by (simp add: n_def)
    have e: "ilog2 q = bitlen n - 1" using True by (simp add: ilog2_def n_def)
    from bitlen_bounds [OF n] have lo: "2 ^ nat (bitlen n - 1) \<le> n" and hi: "n < 2 ^ nat (bitlen n)"
      by auto
    have pos: "1 \<le> bitlen n" using n bitlen_eq_zero_iff [of n] bitlen_nonneg [of n] by linarith
    have "(2::rat) powi (bitlen n - 1) = 2 ^ nat (bitlen n - 1)"
      using pos by (simp add: power_int_def)
    also have "\<dots> = of_int (2 ^ nat (bitlen n - 1))" by simp
    also have "\<dots> \<le> of_int n" using lo by (simp only: of_int_le_iff)
    also have "\<dots> \<le> q" by (simp add: n_def)
    finally have A: "2 powi ilog2 q \<le> q" by (simp add: e)
    have "q < of_int (n + 1)" using floor_correct [of q] by (simp add: n_def)
    also have "\<dots> \<le> of_int (2 ^ nat (bitlen n))" using hi by (simp only: of_int_le_iff)
    also have "\<dots> = (2::rat) powi (bitlen n)" using pos by (simp add: power_int_def)
    finally have B: "q < 2 powi (ilog2 q + 1)" by (simp add: e)
    from A B show ?thesis ..
  next
    case False
    define m where "m = \<lceil>1 / q\<rceil> - 1"
    have inv: "1 < 1 / q" using False assms by simp
    then have m: "0 < m" unfolding m_def by (simp add: less_ceiling_iff)
    have e: "ilog2 q = - bitlen m" using False by (simp add: ilog2_def m_def)
    from bitlen_bounds [OF m] have lo: "2 ^ nat (bitlen m - 1) \<le> m" and hi: "m < 2 ^ nat (bitlen m)"
      by auto
    have pos: "1 \<le> bitlen m" using m bitlen_eq_zero_iff [of m] bitlen_nonneg [of m] by linarith
    have "1 / q \<le> of_int (m + 1)" using ceiling_correct [of "1 / q"] by (simp add: m_def)
    also have "\<dots> \<le> of_int (2 ^ nat (bitlen m))" using hi by (simp only: of_int_le_iff)
    also have "\<dots> = (2::rat) ^ nat (bitlen m)" by simp
    finally have "1 / q \<le> 2 ^ nat (bitlen m)" .
    then have "1 / 2 ^ nat (bitlen m) \<le> q"
      using assms by (simp add: field_simps)
    moreover have "(2::rat) powi (- bitlen m) = 1 / 2 ^ nat (bitlen m)"
      using pos by (simp add: power_int_def field_simps)
    ultimately have A: "2 powi ilog2 q \<le> q" by (simp add: e)
    have "(2::rat) ^ nat (bitlen m - 1) = of_int (2 ^ nat (bitlen m - 1))" by simp
    also have "\<dots> \<le> of_int m" using lo by (simp only: of_int_le_iff)
    also have "\<dots> < 1 / q" using ceiling_correct [of "1 / q"] by (simp add: m_def)
    finally have "(2::rat) ^ nat (bitlen m - 1) < 1 / q" .
    then have "q < 1 / 2 ^ nat (bitlen m - 1)"
      using assms by (simp add: field_simps)
    moreover have "(2::rat) powi (- bitlen m + 1) = 1 / 2 ^ nat (bitlen m - 1)"
    proof (cases "bitlen m = 1")
      case True then show ?thesis by simp
    next
      case False
      with pos have "- bitlen m + 1 < 0" by simp
      then show ?thesis by (simp add: power_int_def field_simps)
    qed
    ultimately have B: "q < 2 powi (ilog2 q + 1)" by (simp add: e)
    from A B show ?thesis ..
  qed
  then show "2 powi ilog2 q \<le> q" and "q < 2 powi (ilog2 q + 1)" by auto
qed

lemma pow2_pos: "0 < (2::rat) powi e"
  by (simp add: zero_less_power_int)

lemma ilog2_ge:
  assumes "2 powi k \<le> q"
  shows "k \<le> ilog2 q"
proof (rule ccontr)
  assume "\<not> k \<le> ilog2 q"
  then have "ilog2 q + 1 \<le> k" by simp
  then have "(2::rat) powi (ilog2 q + 1) \<le> 2 powi k"
    by (intro power_int_increasing) simp_all
  moreover have "0 < q" using assms pow2_pos [of k] by linarith
  then have "q < 2 powi (ilog2 q + 1)" by (rule ilog2_bounds)
  ultimately show False using assms by linarith
qed

lemma ilog2_less:
  assumes "0 < q" and "q < 2 powi k"
  shows "ilog2 q < k"
proof (rule ccontr)
  assume "\<not> ilog2 q < k"
  then have "k \<le> ilog2 q" by simp
  then have "(2::rat) powi k \<le> 2 powi ilog2 q"
    by (intro power_int_increasing) simp_all
  with ilog2_bounds(1) [OF assms(1)] assms(2) show False by linarith
qed

lemma ilog2_eqI:
  assumes "2 powi e \<le> q" and "q < 2 powi (e + 1)"
  shows "ilog2 q = e"
proof -
  have "0 < q" using assms(1) pow2_pos [of e] by linarith
  from ilog2_ge [OF assms(1)] ilog2_less [OF \<open>0 < q\<close> assms(2)] show ?thesis by simp
qed

lemma ilog2_mono:
  assumes "0 < x" and "x \<le> y"
  shows "ilog2 x \<le> ilog2 y"
proof -
  have "2 powi ilog2 x \<le> y" using ilog2_bounds(1) [OF assms(1)] assms(2) by simp
  then show ?thesis by (rule ilog2_ge)
qed

lemma round_double_zero: "round_double 0 = 0"
  by (simp add: round_double_def Let_def round_half_even_def)

lemma round_double_nonneg:
  assumes "0 \<le> q"
  shows "0 \<le> round_double q"
proof -
  have "0 \<le> q / 2 powi (max (ilog2 q) (- 1022) - 52)"
    using assms pow2_pos by (simp add: divide_nonneg_pos)
  then have "0 \<le> round_half_even (q / 2 powi (max (ilog2 q) (- 1022) - 52))"
    by (rule round_half_even_nonneg)
  then show ?thesis
    using pow2_pos by (simp add: round_double_def Let_def)
qed

lemma round_double_lower:
  assumes "- 1022 \<le> k" and "2 powi k \<le> q"
  shows "2 powi k \<le> round_double q"
proof -
  define e where "e = ilog2 q"
  have q: "0 < q" using assms(2) pow2_pos [of k] by linarith
  have ke: "k \<le> e" unfolding e_def using assms(2) by (rule ilog2_ge)
  then have m: "max (ilog2 q) (- 1022) = e" using assms(1) by (simp add: e_def)
  define u :: rat where "u = 2 powi (e - 52)"
  have u: "0 < u" by (simp add: u_def pow2_pos)
  have "(2::rat) powi (e - 52 + 52) = 2 powi (e - 52) * 2 powi 52"
    by (rule power_int_add) simp
  then have eu: "(2::rat) powi e = of_int (2 ^ 52) * u" by (simp add: u_def)
  have "of_int (2 ^ 52) * u \<le> q" using ilog2_bounds(1) [OF q] eu by (simp add: e_def)
  then have "of_int (2 ^ 52) \<le> q / u" using u by (simp add: field_simps)
  then have "round_half_even (of_int (2 ^ 52)) \<le> round_half_even (q / u)"
    by (rule round_half_even_mono)
  then have "2 ^ 52 \<le> round_half_even (q / u)"
    by (simp only: round_half_even_of_int)
  then have "(of_int (2 ^ 52) :: rat) \<le> of_int (round_half_even (q / u))"
    by (simp only: of_int_le_iff)
  then have "(of_int (2 ^ 52) :: rat) * u \<le> of_int (round_half_even (q / u)) * u"
    using u by (simp only: mult_le_cancel_right_pos)
  then have "2 powi e \<le> round_double q"
    using eu by (simp add: round_double_def Let_def m u_def)
  moreover have "(2::rat) powi k \<le> 2 powi e"
    using ke by (intro power_int_increasing) simp_all
  ultimately show ?thesis by linarith
qed

lemma round_double_upper:
  assumes "- 1022 \<le> k" and "0 < q" and "q \<le> 2 powi k"
  shows "round_double q \<le> 2 powi k"
proof -
  define e where "e = max (ilog2 q) (- 1022)"
  have "(2::rat) powi k < 2 powi (k + 1)"
    by (intro power_int_strict_increasing) simp_all
  with assms(3) have "q < 2 powi (k + 1)" by linarith
  with assms(2) have "ilog2 q < k + 1" by (rule ilog2_less)
  then have "ilog2 q \<le> k" by simp
  then have ek: "e \<le> k" using assms(1) by (simp add: e_def)
  define u :: rat where "u = 2 powi (e - 52)"
  have u: "0 < u" by (simp add: u_def pow2_pos)
  define n where "n = nat (k - e + 52)"
  have "(2::rat) powi (e - 52 + (k - e + 52)) = 2 powi (e - 52) * 2 powi (k - e + 52)"
    by (rule power_int_add) simp
  then have "(2::rat) powi k = 2 powi (e - 52) * 2 powi (k - e + 52)"
    by simp
  also have "(2::rat) powi (k - e + 52) = 2 ^ n"
    using ek by (simp add: n_def power_int_def)
  finally have ku: "(2::rat) powi k = of_int (2 ^ n) * u" by (simp add: u_def)
  have "q \<le> of_int (2 ^ n) * u" using assms(3) ku by simp
  then have "q / u \<le> of_int (2 ^ n)" using u by (simp add: field_simps)
  then have "round_half_even (q / u) \<le> round_half_even (of_int (2 ^ n))"
    by (rule round_half_even_mono)
  then have "round_half_even (q / u) \<le> 2 ^ n"
    by (simp only: round_half_even_of_int)
  then have "(of_int (round_half_even (q / u)) :: rat) \<le> of_int (2 ^ n)"
    by (simp only: of_int_le_iff)
  then have "(of_int (round_half_even (q / u)) :: rat) * u \<le> of_int (2 ^ n) * u"
    using u by (simp only: mult_le_cancel_right_pos)
  then show ?thesis
    using ku by (simp add: round_double_def Let_def e_def [symmetric] u_def)
qed

lemma round_double_pow2:
  assumes "- 1022 \<le> k"
  shows "round_double (2 powi k) = 2 powi k"
  using round_double_lower [OF assms, of "2 powi k"]
    round_double_upper [OF assms pow2_pos, of k] by simp

lemma round_double_1: "round_double 1 = 1"
  using round_double_pow2 [of 0] by simp

lemma round_double_mono:
  assumes "0 \<le> x" and "x \<le> y"
  shows "round_double x \<le> round_double y"
proof (cases "x = 0")
  case True
  with assms round_double_nonneg [of y] show ?thesis by (simp add: round_double_zero)
next
  case False
  with assms have x: "0 < x" and y: "0 < y" by simp_all
  define ex where "ex = max (ilog2 x) (- 1022)"
  define ey where "ey = max (ilog2 y) (- 1022)"
  have le: "ex \<le> ey" using ilog2_mono [OF x assms(2)] by (simp add: ex_def ey_def)
  show ?thesis
  proof (cases "ex = ey")
    case True
    have u: "0 < (2::rat) powi (ey - 52)" by (rule pow2_pos)
    have "x / 2 powi (ey - 52) \<le> y / 2 powi (ey - 52)"
      using assms(2) u by (simp add: divide_right_mono)
    then have "round_half_even (x / 2 powi (ey - 52)) \<le> round_half_even (y / 2 powi (ey - 52))"
      by (rule round_half_even_mono)
    then have "(of_int (round_half_even (x / 2 powi (ey - 52))) :: rat)
        \<le> of_int (round_half_even (y / 2 powi (ey - 52)))"
      by (simp only: of_int_le_iff)
    then have "(of_int (round_half_even (x / 2 powi (ey - 52))) :: rat) * 2 powi (ey - 52)
        \<le> of_int (round_half_even (y / 2 powi (ey - 52))) * 2 powi (ey - 52)"
      using u by (simp only: mult_le_cancel_right_pos)
    then show ?thesis
      using True by (simp add: round_double_def Let_def ex_def [symmetric] ey_def [symmetric])
  next
    case False
    with le have lt: "ex < ey" by simp
    have "- 1022 \<le> ex" by (simp add: ex_def)
    with lt have ey: "ey = ilog2 y" and ey': "- 1022 \<le> ey" by (simp_all add: ey_def)
    have "2 powi ey \<le> y" unfolding ey using y by (rule ilog2_bounds)
    with ey' have lower: "2 powi ey \<le> round_double y" by (rule round_double_lower)
    have "x < 2 powi (ilog2 x + 1)" using x by (rule ilog2_bounds)
    also have "(2::rat) powi (ilog2 x + 1) \<le> 2 powi ey"
      using lt by (intro power_int_increasing) (simp_all add: ex_def)
    finally have "x \<le> 2 powi ey" by simp
    with ey' x have "round_double x \<le> 2 powi ey" by (rule round_double_upper)
    with lower show ?thesis by linarith
  qed
qed

lemma round_double_exact:
  assumes "2 powi e \<le> q" and "q < 2 powi (e + 1)" and "- 1022 \<le> e"
    and "q / 2 powi (e - 52) = of_int n"
  shows "round_double q = q"
proof -
  have e: "ilog2 q = e" using assms(1,2) by (rule ilog2_eqI)
  have "of_int n * 2 powi (e - 52) = q"
    using assms(4) pow2_pos [of "e - 52"] by (simp add: field_simps)
  then show ?thesis
    using assms(3,4) by (simp add: round_double_def Let_def e max_def round_half_even_of_int)
qed

lemma double_limit_pow2: "double_limit = 2 powi 1024"
  by (simp add: double_limit_def)

subsection \<open>True division\<close>

lemma int_truediv_finite:
  assumes "int_truediv a b = Inr x"
  shows "b \<noteq> 0 \<and> x = Finite ((a < 0) \<noteq> (b < 0)) (round_double (of_int \<bar>a\<bar> / of_int \<bar>b\<bar>))
     \<and> round_double (of_int \<bar>a\<bar> / of_int \<bar>b\<bar>) < double_limit"
  using assms by (auto simp: int_truediv_def Let_def split: if_splits)

lemma int_truediv_error:
  assumes "b \<noteq> 0" and "int_truediv a b = Inl e"
  shows "e = PyExc OverflowError ''integer division result too large for a float''"
  using assms by (auto simp: int_truediv_def Let_def split: if_splits)

lemma int_truediv_zero: "b \<noteq> 0 \<Longrightarrow> int_truediv 0 b = Inr (Finite (b < 0) 0)"
  by (simp add: int_truediv_def round_double_zero double_limit_def)

lemma int_truediv_overflow:
  assumes "b \<noteq> 0" and "(2::rat) powi 1024 \<le> of_int \<bar>a\<bar> / of_int \<bar>b\<bar>"
  shows "int_truediv a b = Inl (PyExc OverflowError ''integer division result too large for a float'')"
proof -
  have "(2::rat) powi 1024 \<le> round_double (of_int \<bar>a\<bar> / of_int \<bar>b\<bar>)"
    using assms(2) by (intro round_double_lower) simp_all
  then show ?thesis using assms(1) by (simp add: int_truediv_def Let_def double_limit_pow2)
qed

lemma int_truediv_in_range:
  assumes "b \<noteq> 0" and "\<bar>a\<bar> \<le> 2 ^ 1023"
  shows "\<exists>m. int_truediv a b = Inr (Finite ((a < 0) \<noteq> (b < 0)) m)"
proof -
  define q :: rat where "q = of_int \<bar>a\<bar> / of_int \<bar>b\<bar>"
  have b: "(1::rat) \<le> of_int \<bar>b\<bar>" using assms(1) by (simp add: of_int_abs [symmetric] del: of_int_abs) 
  have "q \<le> of_int \<bar>a\<bar>"
    unfolding q_def using b by (simp add: field_simps mult_left_mono mult_le_cancel_left1)
  also have "(of_int \<bar>a\<bar> :: rat) \<le> of_int (2 ^ 1023)" using assms(2) by (simp only: of_int_le_iff)
  also have "\<dots> = 2 powi 1023" by simp
  finally have q: "q \<le> 2 powi 1023" .
  have q0: "0 \<le> q" by (simp add: q_def)
  have "round_double q \<le> 2 powi 1023"
  proof (cases "q = 0")
    case True
    then show ?thesis by (simp add: round_double_zero)
  next
    case False
    with q0 have "0 < q" by simp
    with q show ?thesis by (intro round_double_upper) simp_all
  qed
  also have "(2::rat) powi 1023 < 2 powi 1024"
    by (intro power_int_strict_increasing) simp_all
  finally have "\<not> double_limit \<le> round_double q" by (simp add: double_limit_pow2)
  then show ?thesis using assms(1) by (simp add: int_truediv_def Let_def q_def)
qed

lemma int_truediv_eval:
  assumes "b \<noteq> 0" and "round_double (of_int \<bar>a\<bar> / of_int \<bar>b\<bar>) = r" and "r < double_limit"
  shows "int_truediv a b = Inr (Finite ((a < 0) \<noteq> (b < 0)) r)"
  using assms by (simp add: int_truediv_def Let_def)

lemma int_truediv_self:
  assumes "0 < t"
  shows "int_truediv t t = Inr (Finite False 1)"
  using assms by (simp add: int_truediv_def round_double_1 double_limit_def)

subsection \<open>Values at concrete inputs\<close>

declare digits10.simps [simp del]

declare format_fixed.simps [simp del]

lemma round_double_2: "round_double 2 = 2"
  using round_double_pow2 [of 1] by simp

lemma round_double_50: "round_double 50 = 50"
  by (rule round_double_exact [where e = 5 and n = "50 * 2 ^ 47"]) simp_all

lemma round_double_100: "round_double 100 = 100"
  by (rule round_double_exact [where e = 6 and n = "100 * 2 ^ 46"]) simp_all

lemma round_double_200: "round_double 200 = 200"
  by (rule round_double_exact [where e = 7 and n = "200 * 2 ^ 45"]) simp_all

lemma round_double_2048: "round_double 2048 = 2048"
  using round_double_pow2 [of 11] by simp

lemma round_double_204800: "round_double 204800 = 204800"
  by (rule round_double_exact [where e = 17 and n = "204800 * 2 ^ 35"]) simp_all

lemma round_double_half: "round_double (1 / 2) = 1 / 2"
  using round_double_pow2 [of "- 1"] by simp

lemma round_double_128th: "round_double (1 / 128) = 1 / 128"
  using round_double_pow2 [of "- 7"] by simp

lemma round_double_256th: "round_double (1 / 256) = 1 / 256"
  using round_double_pow2 [of "- 8"] by simp

lemma round_double_2_18th: "round_double (1 / 262144) = 1 / 262144"
  using round_double_pow2 [of "- 18"] by simp


lemma int_truediv_4_bytes: "int_truediv 4 1048576 = Inr (Finite False (1 / 262144))"
  using int_truediv_eval [of 1048576 4 "1 / 262144"]
  by (simp add: round_double_2_18th double_limit_def)

lemma format_0: "format_fixed 1 (Finite False 0) = ''0.0''"
  by (simp add: format_fixed.simps round_half_even_def Let_def digits10.simps digit_char_def)

lemma format_100: "format_fixed 1 (Finite False 100) = ''100.0''"
  by (simp add: format_fixed.simps round_half_even_def Let_def digits10.simps digit_char_def)

lemma format_200: "format_fixed 1 (Finite False 200) = ''200.0''"
  by (simp add: format_fixed.simps round_half_even_def Let_def digits10.simps digit_char_def)

lemma format_204800: "format_fixed 1 (Finite False 204800) = ''204800.0''"
  by (simp add: format_fixed.simps round_half_even_def Let_def digits10.simps digit_char_def)

lemma format_128th: "format_fixed 1 (Finite False (1 / 128)) = ''0.0''"
  by (simp add: format_fixed.simps round_half_even_def Let_def digits10.simps digit_char_def)

lemma format_256th: "format_fixed 1 (Finite False (1 / 256)) = ''0.0''"
  by (simp add: format_fixed.simps round_half_even_def Let_def digits10.simps digit_char_def)

lemma format_2_18th: "format_fixed 1 (Finite False (1 / 262144)) = ''0.0''"
  by (simp add: format_fixed.simps round_half_even_def Let_def digits10.simps digit_char_def)


section \<open>The events of a run\<close>

lemma trace_log_event: "trace (log_event ev w) = trace w @ [ev]"
  by (simp add: log_event_def)

lemma files_log_event: "files (log_event ev w) = files w"
  by (simp add: log_event_def)

lemma trace_py_print: "trace (py_print s w) = trace w @ [Print (s @ [CHR 0x0A])]"
  by (simp add: py_print_def trace_log_event)

lemma files_py_print: "files (py_print s w) = files w"
  by (simp add: py_print_def files_log_event)

lemma trace_py_print_no_end: "trace (py_print_no_end s w) = trace w @ [Print s]"
  by (simp add: py_print_no_end_def trace_log_event)

lemma files_py_print_no_end: "files (py_print_no_end s w) = files w"
  by (simp add: py_print_no_end_def files_log_event)

lemma stdout_log_event: "stdout (log_event ev w) = stdout w @ printed ev"
  by (simp add: stdout_def log_event_def)

lemma stdout_py_print: "stdout (py_print s w) = stdout w @ [s @ [CHR 0x0A]]"
  by (simp add: py_print_def stdout_log_event)

lemma stdout_py_print_no_end: "stdout (py_print_no_end s w) = stdout w @ [s]"
  by (simp add: py_print_no_end_def stdout_log_event)


section \<open>The progress callback\<close>

subsection \<open>The values it reports\<close>

lemma percent_of_unknown:
  assumes "total_size \<le> 0"
  shows "percent_of block_num block_size total_size = Inr (Finite False 0)"
  using assms by (simp add: percent_of_def)

lemma percent_of_half_block: "percent_of 1 8192 4096 = Inr (Finite False 200)"
proof -
  have "int_truediv 8192 4096 = Inr (Finite False 2)"
    using int_truediv_eval [of 4096 8192 2] by (simp add: round_double_2 double_limit_def)
  then show ?thesis
    by (simp add: percent_of_def round_double_200 double_limit_def)
qed

lemma percent_of_first_of_two: "percent_of 1 8192 16384 = Inr (Finite False 50)"
proof -
  have "int_truediv 8192 16384 = Inr (Finite False (1 / 2))"
    using int_truediv_eval [of 16384 8192 "1 / 2"]
    by (simp add: round_double_half double_limit_def)
  then show ?thesis
    by (simp add: percent_of_def round_double_50 double_limit_def)
qed

lemma progress_values_half_block:
  "progress_values 1 8192 4096 = Inr (Finite False 200, Finite False (1 / 128), Finite False (1 / 256))"
proof -
  have a: "int_truediv 8192 1048576 = Inr (Finite False (1 / 128))"
    using int_truediv_eval [of 1048576 8192 "1 / 128"]
    by (simp add: round_double_128th double_limit_def)
  have b: "int_truediv 4096 1048576 = Inr (Finite False (1 / 256))"
    using int_truediv_eval [of 1048576 4096 "1 / 256"]
    by (simp add: round_double_256th double_limit_def)
  from a b percent_of_half_block show ?thesis
    by (simp add: progress_values_def)
qed


lemma progress_values_start: 
  "progress_values 0 8192 4 = Inr (Finite False 0, Finite False 0, Finite False (1 / 262144))"
proof -
  have a: "int_truediv 0 1048576 = Inr (Finite False 0)" by (simp add: int_truediv_zero)
  have b: "percent_of 0 8192 4 = Inr (Finite False 0)"
    by (simp add: percent_of_def int_truediv_zero round_double_zero double_limit_def)
  from a b int_truediv_4_bytes show ?thesis by (simp add: progress_values_def)
qed

lemma progress_values_one_block: 
  "progress_values 1 8192 4 = Inr (Finite False 204800, Finite False (1 / 128), Finite False (1 / 262144))"
proof -
  have a: "int_truediv 8192 1048576 = Inr (Finite False (1 / 128))"
    using int_truediv_eval [of 1048576 8192 "1 / 128"]
    by (simp add: round_double_128th double_limit_def)
  have "int_truediv 8192 4 = Inr (Finite False 2048)"
    using int_truediv_eval [of 4 8192 2048] by (simp add: round_double_2048 double_limit_def)
  then have b: "percent_of 1 8192 4 = Inr (Finite False 204800)"
    by (simp add: percent_of_def round_double_204800 double_limit_def)
  from a b int_truediv_4_bytes show ?thesis by (simp add: progress_values_def)
qed



subsection \<open>Completion\<close>

lemma percent_at_completion:
  assumes "0 < total_size" and "block_num * block_size = total_size"
  shows "percent_of block_num block_size total_size = Inr (Finite False 100)"
  using assms
  by (simp add: percent_of_def int_truediv_self round_double_100 double_limit_def)

text \<open>
  Claim C4. When the total size is known (positive) and the bytes counted so far,
  \<open>block_num * block_size\<close>, equal it, the percentage the callback computes is exactly
  \<open>100.0\<close>, and it is printed as \<^verbatim>\<open>100.0\<close>.
\<close>

theorem percent_complete:
  assumes "0 < total_size" and "block_num * block_size = total_size"
  shows "percent_of block_num block_size total_size = Inr (Finite False 100)
       \<and> format_fixed 1 (Finite False 100) = ''100.0''"
  using assms by (simp only: percent_at_completion format_100)

text \<open>
  The theorem at three blocks of 8192 bytes of a file of 24576 bytes.
\<close>

theorem percent_complete_witness:
  "(0::int) < 24576 \<and> (3::int) * 8192 = 24576
   \<and> percent_of 3 8192 24576 = Inr (Finite False 100)
   \<and> format_fixed 1 (Finite False 100) = ''100.0''"
proof -
  have pos: "(0::int) < 24576" and eq: "(3::int) * 8192 = 24576" by simp_all
  from percent_complete [OF pos eq] pos eq show ?thesis by blast
qed

subsection \<open>Beyond the total size\<close>

text \<open>
  Claim C8. The percentage is not clamped: with a total size of 4096 bytes and one block
  of 8192 counted (the block only half filled), the callback computes 200.0 and prints
  \<^verbatim>\<open>Progress: 200.0% (0.0/0.0 MB)\<close>.
\<close>

theorem percent_exceeds_100:
  "(0::int) < 4096 \<and> (4096::int) < 1 * 8192
   \<and> percent_of 1 8192 4096 = Inr (Finite False 200)
   \<and> float_lt (Finite False 100) (Finite False 200)
   \<and> download_progress 1 8192 4096 w
       = (Inr (), py_print_no_end ([CHR 0x0D] @ ''Progress: 200.0% (0.0/0.0 MB)'') w)"
  by (simp add: percent_of_half_block float_lt_def download_progress_def
      progress_values_half_block progress_line_def format_200 format_128th format_256th
      del: One_nat_def)

text \<open>
  The same in the initial world, read from the standard output.
\<close>

theorem percent_exceeds_100_witness:
  "percent_of 1 8192 4096 = Inr (Finite False 200)
   \<and> float_lt (Finite False 100) (Finite False 200)
   \<and> stdout (snd (download_progress 1 8192 4096 initial_world))
       = [[CHR 0x0D] @ ''Progress: 200.0% (0.0/0.0 MB)'']"
  using percent_exceeds_100 [of initial_world]
  by (simp add: stdout_py_print_no_end) (simp add: stdout_def initial_world_def)

subsection \<open>Monotonicity\<close>

lemma percent_magnitude_nonneg: "0 \<le> percent_magnitude d t"
  unfolding percent_magnitude_def
  by (intro round_double_nonneg mult_nonneg_nonneg divide_nonneg_nonneg) simp_all

lemma percent_magnitude_mono:
  assumes "0 < t" and "\<bar>d\<bar> \<le> \<bar>d'\<bar>"
  shows "percent_magnitude d t \<le> percent_magnitude d' t"
proof -
  have "(of_int \<bar>d\<bar> :: rat) \<le> of_int \<bar>d'\<bar>" using assms(2) by (simp only: of_int_le_iff)
  then have "(of_int \<bar>d\<bar> :: rat) / of_int \<bar>t\<bar> \<le> of_int \<bar>d'\<bar> / of_int \<bar>t\<bar>"
    by (rule divide_right_mono) simp
  moreover have "(0::rat) \<le> of_int \<bar>d\<bar> / of_int \<bar>t\<bar>" by simp
  ultimately have le: "round_double (of_int \<bar>d\<bar> / of_int \<bar>t\<bar>)
      \<le> round_double (of_int \<bar>d'\<bar> / of_int \<bar>t\<bar>)"
    by (intro round_double_mono)
  have "0 \<le> round_double (of_int \<bar>d\<bar> / of_int \<bar>t\<bar>)"
    by (intro round_double_nonneg) simp
  then have "0 \<le> round_double (of_int \<bar>d\<bar> / of_int \<bar>t\<bar>) * 100" by simp
  moreover have "round_double (of_int \<bar>d\<bar> / of_int \<bar>t\<bar>) * 100
      \<le> round_double (of_int \<bar>d'\<bar> / of_int \<bar>t\<bar>) * 100"
    using le by simp
  ultimately show ?thesis unfolding percent_magnitude_def by (rule round_double_mono)
qed

lemma percent_of_known:
  assumes "0 < t" and "percent_of b s t = Inr p"
  shows "p = (if double_limit \<le> percent_magnitude (b * s) t then Infinity (b * s < 0)
              else Finite (b * s < 0) (percent_magnitude (b * s) t))"
proof -
  from assms obtain q where q: "int_truediv (b * s) t = Inr q" and p: "p = float_mul_const q 100"
    by (auto simp: percent_of_def Let_def split: sum.splits)
  from int_truediv_finite [OF q] assms(1)
  have "q = Finite (b * s < 0) (round_double (of_int \<bar>b * s\<bar> / of_int \<bar>t\<bar>))"
    by simp
  with p show ?thesis by (simp add: percent_magnitude_def Let_def)
qed

text \<open>
  Claim C9. For a fixed block size that is not negative and a fixed total size, the
  percentage the callback computes does not decrease when the block number grows:
  whenever it is computed for \<open>block_num1 \<le> block_num2\<close>, the first percentage is at most
  the second. (For integers so large that the division raises \<^verbatim>\<open>OverflowError\<close> there is
  no percentage to compare.)
\<close>

theorem percent_monotone:
  assumes "block_num1 \<le> block_num2" and "0 \<le> block_size"
    and "percent_of block_num1 block_size total_size = Inr p1"
    and "percent_of block_num2 block_size total_size = Inr p2"
  shows "float_le p1 p2"
proof (cases "0 < total_size")
  case False
  then have "p1 = Finite False 0" and "p2 = Finite False 0"
    using assms(3,4) by (simp_all add: percent_of_unknown)
  then show ?thesis by simp
next
  case True
  define d1 where "d1 = block_num1 * block_size"
  define d2 where "d2 = block_num2 * block_size"
  have le: "d1 \<le> d2" unfolding d1_def d2_def using assms(1,2) by (rule mult_right_mono)
  have p1: "p1 = (if double_limit \<le> percent_magnitude d1 total_size then Infinity (d1 < 0)
              else Finite (d1 < 0) (percent_magnitude d1 total_size))"
    unfolding d1_def using True assms(3) by (rule percent_of_known)
  have p2: "p2 = (if double_limit \<le> percent_magnitude d2 total_size then Infinity (d2 < 0)
              else Finite (d2 < 0) (percent_magnitude d2 total_size))"
    unfolding d2_def using True assms(4) by (rule percent_of_known)
  note nn = percent_magnitude_nonneg [of d1 total_size] percent_magnitude_nonneg [of d2 total_size]
  consider "d1 < 0" "0 \<le> d2" | "0 \<le> d1" | "d2 < 0" using le by linarith
  then show ?thesis
  proof cases
    case 1
    with nn show ?thesis by (simp add: p1 p2)
  next
    case 2
    with le have "\<bar>d1\<bar> \<le> \<bar>d2\<bar>" by simp
    with True have "percent_magnitude d1 total_size \<le> percent_magnitude d2 total_size" by (rule percent_magnitude_mono)
    with 2 le show ?thesis by (simp add: p1 p2)
  next
    case 3
    with le have "\<bar>d2\<bar> \<le> \<bar>d1\<bar>" by simp
    with True have "percent_magnitude d2 total_size \<le> percent_magnitude d1 total_size" by (rule percent_magnitude_mono)
    with 3 le show ?thesis by (simp add: p1 p2)
  qed
qed

text \<open>
  The theorem at block numbers 1 and 2 of two blocks of 8192 bytes: 50.0 and 100.0.
\<close>

theorem percent_monotone_witness:
  "(1::int) \<le> 2 \<and> (0::int) \<le> 8192
   \<and> percent_of 1 8192 16384 = Inr (Finite False 50)
   \<and> percent_of 2 8192 16384 = Inr (Finite False 100)
   \<and> float_le (Finite False 50) (Finite False 100)"
proof -
  have le: "(1::int) \<le> 2" and nn: "(0::int) \<le> 8192" by simp_all
  have p2: "percent_of 2 8192 16384 = Inr (Finite False 100)"
    by (rule percent_at_completion) simp_all
  from percent_monotone [OF le nn percent_of_first_of_two p2] le nn percent_of_first_of_two p2
  show ?thesis by blast
qed

subsection \<open>Exceptions\<close>

lemma progress_values_error:
  assumes "progress_values b s t = Inl e"
  shows "e = PyExc OverflowError ''integer division result too large for a float''"
proof -
  have mb: "int_truediv a (1024 * 1024) = Inl e \<Longrightarrow> ?thesis" for a
    by (rule int_truediv_error [of "1024 * 1024" a]) simp_all
  have pc: "percent_of b s t = Inl e \<Longrightarrow> ?thesis"
    by (auto simp: percent_of_def Let_def split: if_splits sum.splits
             dest: int_truediv_error [rotated])
  from assms mb pc show ?thesis
    by (auto simp: progress_values_def Let_def split: sum.splits)
qed

lemma percent_of_in_range:
  assumes "\<bar>b * s\<bar> \<le> 2 ^ 1023"
  shows "\<exists>p. percent_of b s t = Inr p"
proof (cases "0 < t")
  case True
  then have "t \<noteq> 0" by simp
  from int_truediv_in_range [OF this assms] show ?thesis
    using True by (auto simp: percent_of_def Let_def)
next
  case False
  then show ?thesis by (simp add: percent_of_def)
qed

lemma progress_values_in_range:
  assumes "\<bar>b * s\<bar> \<le> 2 ^ 1023" and "\<bar>t\<bar> \<le> 2 ^ 1023"
  shows "\<exists>v. progress_values b s t = Inr v"
proof -
  from percent_of_in_range [OF assms(1)] obtain p where "percent_of b s t = Inr p" ..
  moreover from int_truediv_in_range [of "1024 * 1024" "b * s", OF _ assms(1)]
  obtain d where "int_truediv (b * s) (1024 * 1024) = Inr d" by auto
  moreover from int_truediv_in_range [of "1024 * 1024" t, OF _ assms(2)]
  obtain m where "int_truediv t (1024 * 1024) = Inr m" by auto
  ultimately show ?thesis by (simp add: progress_values_def Let_def)
qed

lemma progress_values_huge_total:
  assumes "2 ^ 1044 \<le> t"
  shows "progress_values 0 s t
     = Inl (PyExc OverflowError ''integer division result too large for a float'')"
proof -
  have t: "0 < t" using assms by (rule less_le_trans [rotated]) simp
  have a: "percent_of 0 s t = Inr (Finite False 0)"
    using t by (simp add: percent_of_def int_truediv_zero round_double_zero double_limit_def)
  have b: "int_truediv 0 (1024 * 1024) = Inr (Finite False 0)"
    by (simp add: int_truediv_zero)
  have "(of_int (2 ^ 1044) :: rat) \<le> of_int t" using assms by (simp only: of_int_le_iff)
  then have "(2::rat) ^ 1024 * 1048576 \<le> of_int t" by simp
  then have "(2::rat) powi 1024 \<le> of_int \<bar>t\<bar> / of_int \<bar>1024 * 1024\<bar>"
    using t by (simp add: field_simps)
  then have c: "int_truediv t (1024 * 1024)
     = Inl (PyExc OverflowError ''integer division result too large for a float'')"
    by (intro int_truediv_overflow) simp_all
  from a b c show ?thesis
    by (simp add: progress_values_def)
qed

text \<open>
  Claim C10, as amended. The callback never divides by zero: the only exception it can
  raise, for any integers, is the \<^verbatim>\<open>OverflowError\<close> of a true division whose quotient
  does not fit a float; and it returns normally whenever the downloaded byte count and the
  total size are at most \<open>2\<^sup>1\<^sup>0\<^sup>2\<^sup>3\<close> in absolute value.
\<close>

theorem callback_raises_only_overflow:
  "(fst (download_progress block_num block_size total_size w) = Inl e \<longrightarrow>
      e = PyExc OverflowError ''integer division result too large for a float''
      \<and> exc_cls e \<noteq> ZeroDivisionError)
   \<and> (\<bar>block_num * block_size\<bar> \<le> 2 ^ 1023 \<and> \<bar>total_size\<bar> \<le> 2 ^ 1023 \<longrightarrow>
      fst (download_progress block_num block_size total_size w) = Inr ())"
proof (intro conjI impI)
  assume "fst (download_progress block_num block_size total_size w) = Inl e"
  then have "progress_values block_num block_size total_size = Inl e"
    by (simp add: download_progress_def split: sum.splits)
  then show e: "e = PyExc OverflowError ''integer division result too large for a float''"
    by (rule progress_values_error)
  then show "exc_cls e \<noteq> ZeroDivisionError" by simp
next
  assume "\<bar>block_num * block_size\<bar> \<le> 2 ^ 1023 \<and> \<bar>total_size\<bar> \<le> 2 ^ 1023"
  then obtain v where "progress_values block_num block_size total_size = Inr v"
    using progress_values_in_range by blast
  then show "fst (download_progress block_num block_size total_size w) = Inr ()"
    by (simp add: download_progress_def)
qed

text \<open>
  Both halves of the theorem at concrete inputs.
\<close>

theorem callback_raises_only_overflow_witness:
  "fst (download_progress 0 8192 (2 ^ 1100) initial_world)
     = Inl (PyExc OverflowError ''integer division result too large for a float'')
   \<and> exc_cls (PyExc OverflowError ''integer division result too large for a float'')
       \<noteq> ZeroDivisionError
   \<and> \<bar>1 * 8192\<bar> \<le> (2::int) ^ 1023 \<and> \<bar>4096\<bar> \<le> (2::int) ^ 1023
   \<and> fst (download_progress 1 8192 4096 initial_world) = Inr ()"
proof -
  have raised: "fst (download_progress 0 8192 (2 ^ 1100) initial_world)
     = Inl (PyExc OverflowError ''integer division result too large for a float'')"
  proof -
    have "progress_values 0 8192 (2 ^ 1100)
       = Inl (PyExc OverflowError ''integer division result too large for a float'')"
      by (rule progress_values_huge_total) simp
    then show ?thesis by (simp only: download_progress_def sum.case fst_conv)
  qed
  have small: "\<bar>1 * 8192\<bar> \<le> (2::int) ^ 1023 \<and> \<bar>4096\<bar> \<le> (2::int) ^ 1023" by simp
  note main = callback_raises_only_overflow
  from main [of 0 8192 "2 ^ 1100" initial_world
      "PyExc OverflowError ''integer division result too large for a float''"] raised
  have a: "exc_cls (PyExc OverflowError ''integer division result too large for a float'')
       \<noteq> ZeroDivisionError" by blast
  from main [of 1 8192 4096 initial_world] small
  have b: "fst (download_progress 1 8192 4096 initial_world) = Inr ()" by blast
  from raised a small b show ?thesis by blast
qed

text \<open>
  Claim C10 as stated fails: the callback is not total on the integers. With a total size
  of \<open>2\<^sup>1\<^sup>1\<^sup>0\<^sup>0\<close> (what a \<^verbatim>\<open>Content-Length\<close> header of 332 digits gives) line 24 divides
  it by 1048576, and Python raises \<^verbatim>\<open>OverflowError\<close>.
\<close>

theorem callback_overflow_counterexample:
  "download_progress 0 8192 (2 ^ 1100) initial_world
     = (Inl (PyExc OverflowError ''integer division result too large for a float''),
        initial_world)"
proof -
  have "progress_values 0 8192 (2 ^ 1100)
     = Inl (PyExc OverflowError ''integer division result too large for a float'')"
    by (rule progress_values_huge_total) simp
  then show ?thesis by (simp only: download_progress_def sum.case)
qed

section \<open>Directory creation\<close>

declare makedirs.simps [simp del]

lemma path_split_assets: "path_split ''assets'' = ('''', ''assets'')"
  by (simp add: path_split_def)

lemma path_split_models: "path_split ''assets/models'' = (''assets'', ''models'')"
  by (simp add: path_split_def)

lemma path_split_model_path:
  "path_split ''assets/models/facenet.tflite'' = (''assets/models'', ''facenet.tflite'')"
  by (simp add: path_split_def)

lemma model_path_eq: "model_path = ''assets/models/facenet.tflite''"
  by (simp add: model_path_def models_dir_def path_join_def)

lemma makedirs_assets: "makedirs ''assets'' ok fs = mkdir_exist_ok ''assets'' ok fs"
  by (subst makedirs.simps) (simp add: path_split_assets Let_def)

lemma mkdir_assets:
  "mkdir ''assets'' fs =
     (if path_exists fs ''assets''
      then Inl (os_error FileExistsError ''[Errno 17] File exists'' ''assets'')
      else Inr (fs(''assets'' \<mapsto> Dir)))"
  by (simp add: mkdir_def parent_error_def path_split_assets)

lemma makedirs_models_dir:
  "makedirs ''assets/models'' True fs =
     mkdir_exist_ok ''assets/models'' True
       (if path_exists fs ''assets'' then fs else fs(''assets'' \<mapsto> Dir))"
  by (subst makedirs.simps)
    (simp add: path_split_models Let_def makedirs_assets mkdir_exist_ok_def [of "''assets''"]
      mkdir_assets)

lemma mkdir_models:
  "mkdir ''assets/models'' fs =
     (case fs ''assets'' of
        None \<Rightarrow> Inl (os_error FileNotFoundError ''[Errno 2] No such file or directory'' ''assets/models'')
      | Some (File c) \<Rightarrow> Inl (os_error NotADirectoryError ''[Errno 20] Not a directory'' ''assets/models'')
      | Some Dir \<Rightarrow>
          if path_exists fs ''assets/models''
          then Inl (os_error FileExistsError ''[Errno 17] File exists'' ''assets/models'')
          else Inr (fs(''assets/models'' \<mapsto> Dir)))"
  by (simp add: mkdir_def parent_error_def path_split_models split: option.splits node.splits)

lemma makedirs_existing:
  assumes "path_exists fs ''assets''" and "path_isdir fs models_dir"
  shows "makedirs models_dir True fs = (Inr (), fs)"
  using assms
  by (auto simp: makedirs_models_dir mkdir_exist_ok_def mkdir_models models_dir_def
      path_exists_def path_isdir_def split: option.splits node.splits sum.splits)

lemma makedirs_result:
  assumes "makedirs models_dir True fs = (Inr (), fs')"
  shows "path_exists fs' ''assets'' \<and> path_isdir fs' models_dir"
  using assms
  by (auto simp: makedirs_models_dir mkdir_exist_ok_def mkdir_models models_dir_def
      path_exists_def path_isdir_def split: option.splits node.splits sum.splits if_splits)

lemma well_formed_parent:
  assumes "well_formed fs" and "path_isdir fs models_dir"
  shows "path_exists fs ''assets''"
proof -
  from assms(2) have "path_exists fs ''assets/models''"
    by (simp add: path_exists_def path_isdir_def models_dir_def)
  with assms(1) have "path_isdir fs ''assets''"
    unfolding well_formed_def by (auto simp: path_split_models dest!: spec [of _ "''assets/models''"])
  then show ?thesis by (simp add: path_exists_def path_isdir_def)
qed

lemma makedirs_from_absence:
  "makedirs models_dir True Map.empty
     = (Inr (), Map.empty(''assets'' \<mapsto> Dir, ''assets/models'' \<mapsto> Dir))"
  by (simp add: models_dir_def makedirs_models_dir mkdir_exist_ok_def mkdir_models path_exists_def)

lemma well_formed_two_dirs:
  "well_formed (Map.empty(''assets'' \<mapsto> Dir, ''assets/models'' \<mapsto> Dir))"
  by (auto simp: well_formed_def path_exists_def path_isdir_def path_split_models
      path_split_assets split: if_splits)

lemma makedirs_blocked:
  "makedirs models_dir True blocked_fs
     = (Inl (os_error NotADirectoryError ''[Errno 20] Not a directory'' ''assets/models''),
        blocked_fs)"
  by (simp add: models_dir_def makedirs_models_dir mkdir_exist_ok_def mkdir_models
      path_exists_def path_isdir_def blocked_fs_def)


lemma makedirs_stale: "makedirs models_dir True stale_fs = (Inr (), stale_fs)"
  by (rule makedirs_existing)
    (simp_all add: stale_fs_def path_exists_def path_isdir_def models_dir_def)

text \<open>
  Claim C5. Creating the directory is idempotent. On a well-formed file system where
  \<^verbatim>\<open>assets/models\<close> is already a directory, \<^verbatim>\<open>os.makedirs(models_dir, exist_ok=True)\<close>
  raises nothing and changes nothing; and after any run that returned normally, from absence
  or not, the directory is there and a second run raises nothing and leaves the same state.
\<close>

theorem makedirs_idempotent:
  "(well_formed fs \<and> path_isdir fs models_dir \<longrightarrow> makedirs models_dir True fs = (Inr (), fs))
   \<and> (makedirs models_dir True fs = (Inr (), fs') \<longrightarrow>
        path_isdir fs' models_dir \<and> makedirs models_dir True fs' = (Inr (), fs'))"
proof (intro conjI impI)
  assume "well_formed fs \<and> path_isdir fs models_dir"
  then show "makedirs models_dir True fs = (Inr (), fs)"
    using well_formed_parent makedirs_existing by blast
next
  assume run: "makedirs models_dir True fs = (Inr (), fs')"
  then show "path_isdir fs' models_dir" using makedirs_result by blast
  from run show "makedirs models_dir True fs' = (Inr (), fs')"
    using makedirs_result makedirs_existing by blast
qed

text \<open>
  The theorem from absence: on the empty file system the first run creates both
  directories, and the second run leaves them as they are.
\<close>

theorem makedirs_idempotent_witness:
  "makedirs models_dir True Map.empty
     = (Inr (), Map.empty(''assets'' \<mapsto> Dir, ''assets/models'' \<mapsto> Dir))
   \<and> well_formed (Map.empty(''assets'' \<mapsto> Dir, ''assets/models'' \<mapsto> Dir))
   \<and> path_isdir (Map.empty(''assets'' \<mapsto> Dir, ''assets/models'' \<mapsto> Dir)) models_dir
   \<and> makedirs models_dir True (Map.empty(''assets'' \<mapsto> Dir, ''assets/models'' \<mapsto> Dir))
     = (Inr (), Map.empty(''assets'' \<mapsto> Dir, ''assets/models'' \<mapsto> Dir))"
proof -
  let ?fs = "Map.empty(''assets'' \<mapsto> Dir, ''assets/models'' \<mapsto> Dir) :: filesystem"
  note main = makedirs_idempotent
  from main [of Map.empty ?fs] makedirs_from_absence
  have a: "path_isdir ?fs models_dir" and b: "makedirs models_dir True ?fs = (Inr (), ?fs)"
    by blast+
  from main [of ?fs ?fs] well_formed_two_dirs a
  have "makedirs models_dir True ?fs = (Inr (), ?fs)" by blast
  with makedirs_from_absence well_formed_two_dirs a show ?thesis by blast
qed

section \<open>The transfer\<close>

lemma download_progress_effect:
  assumes "download_progress b s t w = (r, w')"
  shows "files w' = files w" and "\<exists>ps. trace w' = trace w @ map Print ps"
proof -
  from assms have "w' = w \<or> (\<exists>line. w' = py_print_no_end line w)"
    by (auto simp: download_progress_def split: sum.splits)
  then show "files w' = files w"
    by (auto simp: files_py_print_no_end)
  from \<open>w' = w \<or> (\<exists>line. w' = py_print_no_end line w)\<close>
  show "\<exists>ps. trace w' = trace w @ map Print ps"
  proof
    assume "w' = w"
    then have "trace w' = trace w @ map Print []" by simp
    then show ?thesis ..
  next
    assume "\<exists>line. w' = py_print_no_end line w"
    then obtain line where "w' = py_print_no_end line w" ..
    then have "trace w' = trace w @ map Print [line]" by (simp add: trace_py_print_no_end)
    then show ?thesis ..
  qed
qed

lemma download_progress_start:
  "download_progress 0 8192 4 w
     = (Inr (), py_print_no_end ([CHR 0x0D] @ ''Progress: 0.0% (0.0/0.0 MB)'') w)"
  by (simp add: download_progress_def progress_values_start progress_line_def
      format_0 format_2_18th del: One_nat_def)

lemma download_progress_one_block:
  "download_progress 1 8192 4 w
     = (Inr (), py_print_no_end ([CHR 0x0D] @ ''Progress: 204800.0% (0.0/0.0 MB)'') w)"
  by (simp add: download_progress_def progress_values_one_block progress_line_def
      format_204800 format_128th format_2_18th del: One_nat_def)

lemma retrieve_blocks_trace:
  assumes "retrieve_blocks download_progress fn sz failure blocks rd bn w = (r, w')"
  shows "\<exists>ps. trace w' = trace w @ map Print ps"
  using assms
proof (induction blocks arbitrary: rd bn w)
  case Nil
  then have "w' = w" by (auto split: option.splits)
  then have "trace w' = trace w @ map Print []" by simp
  then show ?case ..
next
  case (Cons block rest)
  show ?case
  proof (cases "block = []")
    case True
    with Cons.prems have "w' = w" by simp
    then have "trace w' = trace w @ map Print []" by simp
    then show ?thesis ..
  next
    case False
    define w1 where "w1 = w\<lparr>files := write_block fn block (files w)\<rparr>"
    obtain r2 w2 where hook: "download_progress (bn + 1) bs sz w1 = (r2, w2)"
      by (cases "download_progress (bn + 1) bs sz w1")
    from download_progress_effect(2) [OF hook]
    obtain ps where ps: "trace w2 = trace w @ map Print ps" by (auto simp: w1_def)
    show ?thesis
    proof (cases r2)
      case (Inl e)
      with Cons.prems False hook have "w' = w2" by (simp add: Let_def w1_def)
      with ps show ?thesis by blast
    next
      case (Inr u)
      with Cons.prems False hook
      have "retrieve_blocks download_progress fn sz failure rest (rd + length block) (bn + 1) w2
          = (r, w')"
        by (simp add: Let_def w1_def)
      from Cons.IH [OF this] obtain qs where "trace w' = trace w2 @ map Print qs" ..
      with ps have "trace w' = trace w @ map Print (ps @ qs)" by simp
      then show ?thesis ..
    qed
  qed
qed

lemma write_block_file:
  assumes "fs p = Some (File c)"
  shows "write_block p block fs p = Some (File (c @ block))"
  using assms by (simp add: write_block_def)

lemma retrieve_blocks_files:
  assumes "retrieve_blocks download_progress fn sz failure blocks rd bn w = (Inr n, w')"
    and "files w fn = Some (File c)"
  shows "files w' fn = Some (File (c @ concat (takeWhile (\<lambda>b. b \<noteq> []) blocks)))"
  using assms
proof (induction blocks arbitrary: rd bn w c)
  case Nil
  then have "w' = w" by (auto split: option.splits)
  with Nil.prems(2) show ?case by simp
next
  case (Cons block rest)
  show ?case
  proof (cases "block = []")
    case True
    with Cons.prems show ?thesis by simp
  next
    case False
    define w1 where "w1 = w\<lparr>files := write_block fn block (files w)\<rparr>"
    obtain r2 w2 where hook: "download_progress (bn + 1) bs sz w1 = (r2, w2)"
      by (cases "download_progress (bn + 1) bs sz w1")
    from download_progress_effect(1) [OF hook] Cons.prems(2)
    have f2: "files w2 fn = Some (File (c @ block))"
      by (simp add: w1_def write_block_file)
    show ?thesis
    proof (cases r2)
      case (Inl e)
      with Cons.prems(1) False hook show ?thesis by (simp add: Let_def w1_def)
    next
      case (Inr u)
      with Cons.prems(1) False hook
      have "retrieve_blocks download_progress fn sz failure rest (rd + length block) (bn + 1) w2
          = (Inr n, w')"
        by (simp add: Let_def w1_def)
      from Cons.IH [OF this f2] False show ?thesis by simp
    qed
  qed
qed

lemma open_wb_file:
  assumes "open_wb p fs = Inr fs1"
  shows "fs1 p = Some (File [])"
  using assms by (auto simp: open_wb_def split: option.splits if_splits)


lemma open_wb_stale:
  "open_wb model_path stale_fs = Inr (stale_fs(model_path \<mapsto> File []))"
  by (simp add: open_wb_def parent_error_def model_path_eq path_split_model_path
      stale_fs_def path_isdir_def)

lemma urlretrieve_trace:
  assumes "urlretrieve net url fn download_progress w = (r, w')"
  shows "\<exists>ps. trace w' = trace w @ Urlretrieve url fn # map Print ps"
proof -
  define w0 where "w0 = log_event (Urlretrieve url fn) w"
  have t0: "trace w0 = trace w @ [Urlretrieve url fn]" by (simp add: w0_def trace_log_event)
  have none: "w' = w0 \<Longrightarrow> ?thesis"
  proof -
    assume "w' = w0"
    with t0 have "trace w' = trace w @ Urlretrieve url fn # map Print []" by simp
    then show ?thesis ..
  qed
  show ?thesis
  proof (cases "net url")
    case (Inl e)
    with assms have "w' = w0" by (simp add: urlretrieve_def Let_def w0_def)
    then show ?thesis by (rule none)
  next
    case resp: (Inr resp)
    show ?thesis
    proof (cases "open_wb fn (files w0)")
      case (Inl e)
      with assms resp have "w' = w0" by (simp add: urlretrieve_def Let_def w0_def)
      then show ?thesis by (rule none)
    next
      case fs1: (Inr fs1)
      define sz where "sz = (case content_length resp of None \<Rightarrow> - 1 | Some n \<Rightarrow> n)"
      obtain r1 w1 where hook: "download_progress 0 bs sz (w0\<lparr>files := fs1\<rparr>) = (r1, w1)"
        by (cases "download_progress 0 bs sz (w0\<lparr>files := fs1\<rparr>)")
      from download_progress_effect(2) [OF hook] t0
      obtain ps where ps: "trace w1 = trace w @ Urlretrieve url fn # map Print ps" by auto
      show ?thesis
      proof (cases r1)
        case (Inl e)
        with assms resp fs1 hook have "w' = w1"
          by (simp add: urlretrieve_def Let_def w0_def [symmetric] sz_def [symmetric])
        with ps show ?thesis by blast
      next
        case (Inr u)
        obtain r2 w2 where loop: "retrieve_blocks download_progress fn sz (read_failure resp)
                               (body_blocks resp) 0 0 w1 = (r2, w2)"
          by (cases "retrieve_blocks download_progress fn sz (read_failure resp)
                               (body_blocks resp) 0 0 w1")
        from retrieve_blocks_trace [OF loop] obtain qs where "trace w2 = trace w1 @ map Print qs" ..
        with ps have t2: "trace w2 = trace w @ Urlretrieve url fn # map Print (ps @ qs)" by simp
        from assms resp fs1 hook Inr loop have "w' = w2"
          by (auto simp: urlretrieve_def Let_def w0_def [symmetric] sz_def [symmetric]
              split: sum.splits if_splits)
        with t2 show ?thesis by blast
      qed
    qed
  qed
qed

lemma urlretrieve_files:
  assumes "urlretrieve net url fn download_progress w = (Inr u, w')"
  shows "\<exists>resp. net url = Inr resp
     \<and> files w' fn = Some (File (concat (takeWhile (\<lambda>b. b \<noteq> []) (body_blocks resp))))"
proof -
  define w0 where "w0 = log_event (Urlretrieve url fn) w"
  from assms obtain resp where resp: "net url = Inr resp"
    by (cases "net url") (simp_all add: urlretrieve_def Let_def)
  from assms resp obtain fs1 where fs1: "open_wb fn (files w0) = Inr fs1"
    by (cases "open_wb fn (files w0)") (simp_all add: urlretrieve_def Let_def w0_def)
  define sz where "sz = (case content_length resp of None \<Rightarrow> - 1 | Some n \<Rightarrow> n)"
  obtain r1 w1 where hook: "download_progress 0 bs sz (w0\<lparr>files := fs1\<rparr>) = (r1, w1)"
    by (cases "download_progress 0 bs sz (w0\<lparr>files := fs1\<rparr>)")
  from download_progress_effect(1) [OF hook] open_wb_file [OF fs1]
  have f1: "files w1 fn = Some (File [])" by simp
  obtain r2 w2 where loop: "retrieve_blocks download_progress fn sz (read_failure resp)
                               (body_blocks resp) 0 0 w1 = (r2, w2)"
    by (cases "retrieve_blocks download_progress fn sz (read_failure resp)
                               (body_blocks resp) 0 0 w1")
  from assms resp fs1 hook loop obtain n where "r2 = Inr n" and "w' = w2"
    by (auto simp: urlretrieve_def Let_def w0_def [symmetric] sz_def [symmetric]
        split: sum.splits if_splits)
  with retrieve_blocks_files [OF _ f1] loop
  have "files w' fn = Some (File (concat (takeWhile (\<lambda>b. b \<noteq> []) (body_blocks resp))))"
    by auto
  with resp show ?thesis by blast
qed


lemma urlretrieve_small_stale:
  assumes "files w = stale_fs"
  shows "fst (urlretrieve small_server model_url model_path download_progress w) = Inr ()"
  using assms
  by (simp add: urlretrieve_def small_server_def Let_def files_log_event open_wb_stale bs_def
      download_progress_start download_progress_one_block)

section \<open>The script\<close>

subsection \<open>What the steps print\<close>

lemma trace_print_banner: "trace (print_banner w) = trace w @ map Print banner_lines"
  by (simp add: print_banner_def banner_lines_def trace_py_print)

lemma files_print_banner: "files (print_banner w) = files w"
  by (simp add: print_banner_def files_py_print)

lemma trace_print_error: "trace (print_error e w) = trace w @ map Print (error_lines e)"
  by (simp add: print_error_def error_lines_def trace_py_print)

lemma files_print_error: "files (print_error e w) = files w"
  by (simp add: print_error_def files_py_print)


lemma trace_print_success: "\<exists>ps. trace (print_success x w) = trace w @ map Print ps"
proof -
  have "trace (print_success x w) = trace w @ map Print
     [[CHR 0x0A, CHR 0x0A] @ check_mark @ '' Model downloaded successfully!'' @ [CHR 0x0A],
      ''  File size: '' @ format_fixed 2 x @ '' MB'' @ [CHR 0x0A],
      [CHR 0x0A] @ rule50 @ [CHR 0x0A],
      ''Next Steps:'' @ [CHR 0x0A],
      rule50 @ [CHR 0x0A],
      ''1. Run: flutter pub get'' @ [CHR 0x0A],
      ''2. Delete all employees from the app'' @ [CHR 0x0A],
      ''3. Re-register employees with new model'' @ [CHR 0x0A],
      ''4. Test face recognition accuracy'' @ [CHR 0x0A, CHR 0x0A]]"
    by (simp add: print_success_def trace_py_print)
  then show ?thesis ..
qed

lemma files_print_success: "files (print_success x w) = files w"
  by (simp add: print_success_def files_py_print)

subsection \<open>The shape of a run\<close>

lemma download_and_report_trace:
  assumes "download_and_report net w = (r, w')"
  shows "\<exists>ps. trace w' = trace w @ Urlretrieve model_url model_path # map Print ps"
proof -
  obtain r1 w1 where fetch: "urlretrieve net model_url model_path download_progress w = (r1, w1)"
    by (cases "urlretrieve net model_url model_path download_progress w")
  from urlretrieve_trace [OF fetch]
  obtain ps where ps: "trace w1 = trace w @ Urlretrieve model_url model_path # map Print ps" ..
  from assms fetch have "w' = w1 \<or> (\<exists>x. w' = print_success x w1)"
    by (auto simp: download_and_report_def split: sum.splits)
  then show ?thesis
  proof
    assume "w' = w1"
    with ps show ?thesis by blast
  next
    assume "\<exists>x. w' = print_success x w1"
    then obtain x where "w' = print_success x w1" ..
    with trace_print_success [of x w1] obtain qs where "trace w' = trace w1 @ map Print qs"
      by auto
    with ps have "trace w' = trace w @ Urlretrieve model_url model_path # map Print (ps @ qs)"
      by simp
    then show ?thesis ..
  qed
qed

lemma download_and_report_files:
  assumes "download_and_report net w = (Inr u, w')"
  shows "\<exists>resp. net model_url = Inr resp
     \<and> files w' model_path = Some (File (concat (takeWhile (\<lambda>b. b \<noteq> []) (body_blocks resp))))"
proof -
  from assms obtain w1 x
    where fetch: "urlretrieve net model_url model_path download_progress w = (Inr (), w1)"
      and w': "w' = print_success x w1"
    by (auto simp: download_and_report_def split: sum.splits prod.splits)
  from urlretrieve_files [OF fetch] w' show ?thesis
    by (simp add: files_print_success)
qed

lemma run_script_unfold:
  "run_script net fs =
     (case makedirs models_dir True fs of
        (Inl e, fs1) \<Rightarrow> (Unhandled e, \<lparr>files = fs1, trace = [Makedirs models_dir]\<rparr>)
      | (Inr u, fs1) \<Rightarrow> fetch_model net \<lparr>files = fs1, trace = [Makedirs models_dir]\<rparr>)"
  by (simp add: run_script_def log_event_def Let_def split: prod.splits sum.splits)

lemma fetch_model_trace:
  assumes "fetch_model net w = (out, w')"
  shows "\<exists>report. trace w' = trace w @ map Print banner_lines
            @ Urlretrieve model_url model_path # map Print report"
proof -
  obtain r1 w1 where body: "download_and_report net (print_banner w) = (r1, w1)"
    by (cases "download_and_report net (print_banner w)")
  from download_and_report_trace [OF body]
  obtain ps where ps: "trace w1 = trace w @ map Print banner_lines
            @ Urlretrieve model_url model_path # map Print ps"
    by (auto simp: trace_print_banner)
  from assms body have "w' = w1 \<or> (\<exists>e. w' = print_error e w1)"
    by (auto simp: fetch_model_def split: sum.splits if_splits)
  then show ?thesis
  proof
    assume "w' = w1"
    with ps show ?thesis by blast
  next
    assume "\<exists>e. w' = print_error e w1"
    then obtain e where "w' = print_error e w1" ..
    with ps have "trace w' = trace w @ map Print banner_lines
            @ Urlretrieve model_url model_path # map Print (ps @ error_lines e)"
      by (simp add: trace_print_error)
    then show ?thesis ..
  qed
qed

lemma count_fetch_prints: "filter is_fetch (map Print ps) = []"
  by (induction ps) simp_all

lemma run_blocked:
  "run_script net blocked_fs
     = (Unhandled (os_error NotADirectoryError ''[Errno 20] Not a directory'' ''assets/models''),
        \<lparr>files = blocked_fs, trace = [Makedirs models_dir]\<rparr>)"
  by (simp add: run_script_unfold makedirs_blocked)


lemma run_small_stale: "fst (run_script small_server stale_fs) = Succeeded"
proof -
  let ?w = "print_banner \<lparr>files = stale_fs, trace = [Makedirs models_dir]\<rparr>"
  have "files ?w = stale_fs" by (simp add: files_print_banner)
  then have "fst (urlretrieve small_server model_url model_path download_progress ?w) = Inr ()"
    by (rule urlretrieve_small_stale)
  then obtain w1 where fetch: "urlretrieve small_server model_url model_path download_progress ?w = (Inr (), w1)"
    by (cases "urlretrieve small_server model_url model_path download_progress ?w") simp
  from urlretrieve_files [OF fetch]
  have "files w1 model_path = Some (File ''abcd'')" by (simp add: small_server_def)
  then have "path_getsize (files w1) model_path = Inr 4" by (simp add: path_getsize_def)
  with fetch int_truediv_4_bytes have "fst (download_and_report small_server ?w) = Inr ()"
    by (simp add: download_and_report_def)
  then have "fst (fetch_model small_server \<lparr>files = stale_fs, trace = [Makedirs models_dir]\<rparr>) = Succeeded"
    by (cases "download_and_report small_server ?w") (simp add: fetch_model_def)
  then show ?thesis by (simp add: run_script_unfold makedirs_stale)
qed

subsection \<open>The order of the steps\<close>

text \<open>
  Claim C7, as amended. Every run starts with the directory creation, and performs at most
  one fetch, never before the directory creation: when \<^verbatim>\<open>os.makedirs\<close> returns, the run is
  the banner, then exactly one call of \<^verbatim>\<open>urlretrieve\<close>, then only printing (progress and
  the report of the outcome); when \<^verbatim>\<open>os.makedirs\<close> raises, the exception leaves the script
  and nothing is fetched.
\<close>

theorem run_order:
  "\<exists>rest. trace (snd (run_script net fs)) = Makedirs models_dir # rest
     \<and> (case fst (makedirs models_dir True fs) of
          Inl e \<Rightarrow> rest = [] \<and> fst (run_script net fs) = Unhandled e
        | Inr u \<Rightarrow> (\<exists>report. rest = map Print banner_lines
                      @ Urlretrieve model_url model_path # map Print report))
     \<and> length (filter is_fetch (trace (snd (run_script net fs))))
         = (case fst (makedirs models_dir True fs) of Inl e \<Rightarrow> 0 | Inr u \<Rightarrow> 1)"
proof -
  obtain r fs1 where mk: "makedirs models_dir True fs = (r, fs1)"
    by (cases "makedirs models_dir True fs")
  show ?thesis
  proof (cases r)
    case (Inl e)
    with mk have "run_script net fs = (Unhandled e, \<lparr>files = fs1, trace = [Makedirs models_dir]\<rparr>)"
      by (simp add: run_script_unfold)
    with mk Inl show ?thesis by simp
  next
    case (Inr u)
    obtain out w' where run: "fetch_model net \<lparr>files = fs1, trace = [Makedirs models_dir]\<rparr> = (out, w')"
      by (cases "fetch_model net \<lparr>files = fs1, trace = [Makedirs models_dir]\<rparr>")
    from fetch_model_trace [OF run]
    obtain report where "trace w' = Makedirs models_dir # map Print banner_lines
            @ Urlretrieve model_url model_path # map Print report"
      by auto
    moreover from mk Inr run have "run_script net fs = (out, w')"
      by (simp add: run_script_unfold)
    ultimately show ?thesis using mk Inr by (auto simp: count_fetch_prints)
  qed
qed

text \<open>
  The theorem on a file system that has the directories, and on one where \<^verbatim>\<open>assets\<close> is
  a regular file.
\<close>

theorem run_order_witness:
  "fst (makedirs models_dir True stale_fs) = Inr ()
   \<and> (\<exists>report. trace (snd (run_script small_server stale_fs))
         = Makedirs models_dir # map Print banner_lines
            @ Urlretrieve model_url model_path # map Print report)
   \<and> length (filter is_fetch (trace (snd (run_script small_server stale_fs)))) = 1
   \<and> fst (makedirs models_dir True blocked_fs)
       = Inl (os_error NotADirectoryError ''[Errno 20] Not a directory'' ''assets/models'')
   \<and> trace (snd (run_script small_server blocked_fs)) = [Makedirs models_dir]
   \<and> length (filter is_fetch (trace (snd (run_script small_server blocked_fs)))) = 0"
proof -
  have ok: "fst (makedirs models_dir True stale_fs) = Inr ()" by (simp add: makedirs_stale)
  have bad: "fst (makedirs models_dir True blocked_fs)
       = Inl (os_error NotADirectoryError ''[Errno 20] Not a directory'' ''assets/models'')"
    by (simp add: makedirs_blocked)
  note main = run_order
  from main [of small_server stale_fs] ok
  have a: "(\<exists>report. trace (snd (run_script small_server stale_fs))
         = Makedirs models_dir # map Print banner_lines
            @ Urlretrieve model_url model_path # map Print report)
     \<and> length (filter is_fetch (trace (snd (run_script small_server stale_fs)))) = 1"
    by auto
  from main [of small_server blocked_fs] bad
  have b: "trace (snd (run_script small_server blocked_fs)) = [Makedirs models_dir]
     \<and> length (filter is_fetch (trace (snd (run_script small_server blocked_fs)))) = 0"
    by auto
  from ok bad a b show ?thesis by blast
qed

text \<open>
  Claim C7 as stated fails: not every invocation performs a fetch. Where \<^verbatim>\<open>assets\<close> is a
  regular file, \<^verbatim>\<open>os.makedirs\<close> raises on line 6 and the script ends there, though the
  server is reachable.
\<close>

theorem no_fetch_counterexample:
  "length (filter is_fetch (trace (snd (run_script small_server blocked_fs)))) = 0
   \<and> trace (snd (run_script small_server blocked_fs)) = [Makedirs ''assets/models'']"
  by (simp add: run_blocked models_dir_def)

subsection \<open>Failures\<close>






subsection \<open>Overwriting\<close>

text \<open>
  Claim C6. When a file already exists at the destination path, a successful run leaves
  there the bytes just downloaded, whatever the file held before; and the run consists of
  the directory creation, the banner, the fetch and printing only: nothing is read, so
  nothing is asked.
\<close>

theorem existing_file_overwritten:
  assumes "fs model_path = Some (File old)" and "fst (run_script net fs) = Succeeded"
  shows "\<exists>resp report. net model_url = Inr resp
     \<and> files (snd (run_script net fs)) model_path
         = Some (File (concat (takeWhile (\<lambda>b. b \<noteq> []) (body_blocks resp))))
     \<and> trace (snd (run_script net fs)) = Makedirs models_dir # map Print banner_lines
            @ Urlretrieve model_url model_path # map Print report"
proof -
  obtain r fs1 where mk: "makedirs models_dir True fs = (r, fs1)"
    by (cases "makedirs models_dir True fs")
  with assms(2) obtain u where r: "r = Inr u"
    by (cases r) (simp_all add: run_script_unfold)
  let ?w = "\<lparr>files = fs1, trace = [Makedirs models_dir]\<rparr>"
  from mk r have run: "run_script net fs = fetch_model net ?w"
    by (simp add: run_script_unfold)
  obtain r1 w1 where body: "download_and_report net (print_banner ?w) = (r1, w1)"
    by (cases "download_and_report net (print_banner ?w)")
  with assms(2) run obtain u' where r1: "r1 = Inr u'"
    by (cases r1) (simp_all add: fetch_model_def split: if_splits)
  with body run have res: "run_script net fs = (Succeeded, w1)"
    by (simp add: fetch_model_def)
  from body r1 download_and_report_files
  obtain resp where "net model_url = Inr resp"
    and "files w1 model_path = Some (File (concat (takeWhile (\<lambda>b. b \<noteq> []) (body_blocks resp))))"
    by blast
  moreover from fetch_model_trace [of net ?w Succeeded w1] res run
  obtain report where "trace w1 = Makedirs models_dir # map Print banner_lines
            @ Urlretrieve model_url model_path # map Print report"
    by auto
  ultimately show ?thesis using res by auto
qed

text \<open>
  The theorem where an earlier download holds \<^verbatim>\<open>old\<close> and the server sends \<^verbatim>\<open>abcd\<close>.
\<close>

theorem existing_file_overwritten_witness:
  "stale_fs model_path = Some (File ''old'')
   \<and> fst (run_script small_server stale_fs) = Succeeded
   \<and> files (snd (run_script small_server stale_fs)) model_path = Some (File ''abcd'')"
proof -
  have old: "stale_fs model_path = Some (File ''old'')"
    by (simp add: stale_fs_def model_path_eq)
  from existing_file_overwritten [OF old run_small_stale]
  have "files (snd (run_script small_server stale_fs)) model_path = Some (File ''abcd'')"
    by (auto simp: small_server_def)
  with old run_small_stale show ?thesis by blast
qed

end
